theory Spec2Isabelle
  imports Main "HOL-Library.AList"
begin

section \<open>Data model\<close>

text \<open>
  The analysis script \<^verbatim>\<open>automated_analysis.py\<close> walks two collections of records
  (messages and individuals) against catalogs of coding plans and fills ordered
  dictionaries of counts. Ordered dictionaries are association lists here:
  \<open>AList.update\<close> replaces the value of a key in place and appends a new key at the end,
  as \<^verbatim>\<open>OrderedDict.__setitem__\<close> does; \<open>map_of\<close> is the lookup.
\<close>

text \<open>
  Every \<^verbatim>\<open>raise\<close> of the script and of the library calls it makes is a value.
  \<open>FloatOperand\<close> is not a Python exception: the model stops with it where the script
  would go on computing with a float that it read back from a percentage slot (this
  needs a count key that coincides with a percentage key).
\<close>

datatype error = AssertionError | KeyError | TypeError | ZeroDivisionError | ValueError
  | FloatOperand

datatype CodeTypes = NORMAL | CONTROL | META

datatype CodingModes = SINGLE | MULTIPLE

record Code =
  code_id :: string
  string_value :: string
  code_type :: CodeTypes
  control_code :: "string option"

record CodeScheme =
  name :: string
  codes :: "Code list"

record CodingConfiguration =
  coded_field :: string
  code_scheme :: CodeScheme
  coding_mode :: CodingModes
  analysis_file_key :: "string option"

record CodingPlan =
  dataset_name :: string
  raw_field :: string
  coding_configurations :: "CodingConfiguration list"

text \<open>
  A field of a record holds a string (a raw message, the consent flag), one label (a
  dictionary with the key \<^verbatim>\<open>CodeID\<close>, kept as that code id) or a list of labels.
\<close>

datatype field_value = Str string | Label string | Labels "string list"

type_synonym traced_data = "string \<rightharpoonup> field_value"

text \<open>
  A cell of an output table. \<open>CRound c d\<close> stands for the float
  \<^verbatim>\<open>round(c / d * 100, 1)\<close> with \<open>d \<noteq> 0\<close>: the operands are kept, the
  floating-point value is not computed.
\<close>

datatype cell = CNone | CInt int | CStr string | CRound int int

abbreviation Codes_TRUE :: string where "Codes_TRUE \<equiv> ''true''"
abbreviation Codes_FALSE :: string where "Codes_FALSE \<equiv> ''false''"
abbreviation Codes_STOP :: string where "Codes_STOP \<equiv> ''stop''"
abbreviation CONSENT_WITHDRAWN_KEY :: string where "CONSENT_WITHDRAWN_KEY \<equiv> ''consent_withdrawn''"

subsection \<open>Loops that can raise\<close>

text \<open>A \<^verbatim>\<open>for\<close> loop over a list whose body updates the state or raises.\<close>

fun foldE :: "('a \<Rightarrow> 's \<Rightarrow> error + 's) \<Rightarrow> 'a list \<Rightarrow> 's \<Rightarrow> error + 's" where
  "foldE f [] s = Inr s"
| "foldE f (x # xs) s = (case f x s of Inl e \<Rightarrow> Inl e | Inr s' \<Rightarrow> foldE f xs s')"

text \<open>A list comprehension whose element expression can raise.\<close>

fun mapE :: "('a \<Rightarrow> error + 'b) \<Rightarrow> 'a list \<Rightarrow> error + 'b list" where
  "mapE f [] = Inr []"
| "mapE f (x # xs) =
     (case f x of Inl e \<Rightarrow> Inl e
      | Inr y \<Rightarrow> (case mapE f xs of Inl e \<Rightarrow> Inl e | Inr ys \<Rightarrow> Inr (y # ys)))"

text \<open>\<^verbatim>\<open>td["consent_withdrawn"] == c\<close>: a missing key raises.\<close>

definition consent_is :: "string \<Rightarrow> traced_data \<Rightarrow> error + bool" where
  "consent_is c td =
     (case td CONSENT_WITHDRAWN_KEY of None \<Rightarrow> Inl KeyError | Some v \<Rightarrow> Inr (v = Str c))"

text \<open>\<^verbatim>\<open>CodeScheme.get_code_with_code_id\<close>: the first code with that id, or KeyError.\<close>

definition get_code_with_code_id :: "CodeScheme \<Rightarrow> string \<Rightarrow> error + Code" where
  "get_code_with_code_id scheme cid =
     (case find (\<lambda>c. code_id c = cid) (codes scheme) of
        None \<Rightarrow> Inl KeyError
      | Some c \<Rightarrow> Inr c)"

section \<open>Engagement counts\<close>

text \<open>
  The record filters of \<^verbatim>\<open>AnalysisUtils\<close> are parameters: each takes the records, the
  consent key and the plans, and returns the records it keeps.
\<close>

type_synonym record_filter = "traced_data list \<Rightarrow> string \<Rightarrow> CodingPlan list \<Rightarrow> traced_data list"

record analysis_utils =
  filter_opt_ins :: record_filter
  filter_fully_labelled :: record_filter
  filter_partially_labelled :: record_filter
  filter_relevant :: record_filter

record engagement_row =
  Episode :: string
  Total_Messages :: cell
  Total_Messages_with_Opt_Ins :: cell
  Total_Labelled_Messages :: cell
  Total_Relevant_Messages :: cell
  Total_Participants :: cell
  Total_Participants_with_Opt_Ins :: cell
  Total_Relevant_Participants :: cell

definition len :: "'a list \<Rightarrow> cell" where
  "len xs = CInt (int (length xs))"

definition episode_engagement ::
  "analysis_utils \<Rightarrow> traced_data list \<Rightarrow> traced_data list \<Rightarrow> CodingPlan \<Rightarrow> engagement_row" where
  "episode_engagement au messages individuals plan =
    \<lparr> Episode = dataset_name plan,
      Total_Messages = CStr ''-'',
      Total_Messages_with_Opt_Ins = len (filter_opt_ins au messages CONSENT_WITHDRAWN_KEY [plan]),
      Total_Labelled_Messages = len (filter_fully_labelled au messages CONSENT_WITHDRAWN_KEY [plan]),
      Total_Relevant_Messages = len (filter_relevant au messages CONSENT_WITHDRAWN_KEY [plan]),
      Total_Participants = CStr ''-'',
      Total_Participants_with_Opt_Ins = len (filter_opt_ins au individuals CONSENT_WITHDRAWN_KEY [plan]),
      Total_Relevant_Participants = len (filter_relevant au individuals CONSENT_WITHDRAWN_KEY [plan]) \<rparr>"

definition total_engagement ::
  "analysis_utils \<Rightarrow> CodingPlan list \<Rightarrow> traced_data list \<Rightarrow> traced_data list \<Rightarrow> engagement_row" where
  "total_engagement au plans messages individuals =
    \<lparr> Episode = ''Total'',
      Total_Messages = len messages,
      Total_Messages_with_Opt_Ins = len (filter_opt_ins au messages CONSENT_WITHDRAWN_KEY plans),
      Total_Labelled_Messages = len (filter_partially_labelled au messages CONSENT_WITHDRAWN_KEY plans),
      Total_Relevant_Messages = len (filter_relevant au messages CONSENT_WITHDRAWN_KEY plans),
      Total_Participants = len individuals,
      Total_Participants_with_Opt_Ins = len (filter_opt_ins au individuals CONSENT_WITHDRAWN_KEY plans),
      Total_Relevant_Participants = len (filter_relevant au individuals CONSENT_WITHDRAWN_KEY plans) \<rparr>"

text \<open>
  \<^verbatim>\<open>engagement_counts\<close>, keyed by the episode name: one entry per RQA plan, in the
  order of the plans, then the entry \<^verbatim>\<open>"Total"\<close>.
\<close>

definition episode_rows ::
  "analysis_utils \<Rightarrow> CodingPlan list \<Rightarrow> traced_data list \<Rightarrow> traced_data list
     \<Rightarrow> (string \<times> engagement_row) list" where
  "episode_rows au plans messages individuals =
     fold (\<lambda>plan ec. AList.update (dataset_name plan) (episode_engagement au messages individuals plan) ec)
       plans []"

definition engagement_counts ::
  "analysis_utils \<Rightarrow> CodingPlan list \<Rightarrow> traced_data list \<Rightarrow> traced_data list
     \<Rightarrow> (string \<times> engagement_row) list" where
  "engagement_counts au plans messages individuals =
     AList.update ''Total'' (total_engagement au plans messages individuals)
       (episode_rows au plans messages individuals)"

section \<open>Repeat participations\<close>

record rp_row =
  Episodes_Participated_In :: int
  Number_of_Individuals :: int
  Pct_of_Individuals :: cell

type_synonym repeat_participations = "(nat \<times> rp_row) list"

definition repeat_participations_init :: "CodingPlan list \<Rightarrow> repeat_participations" where
  "repeat_participations_init plans =
     map (\<lambda>i. (i, \<lparr> Episodes_Participated_In = int i, Number_of_Individuals = 0,
                    Pct_of_Individuals = CNone \<rparr>))
       [1 ..< length plans + 1]"

definition weeks_participated :: "CodingPlan list \<Rightarrow> traced_data \<Rightarrow> nat" where
  "weeks_participated plans ind = length (filter (\<lambda>plan. ind (raw_field plan) \<noteq> None) plans)"

text \<open>
  The body of the loop over the individuals. The message of the assertion reads
  \<^verbatim>\<open>ind['uid']\<close>, so a failing assertion on a record without \<^verbatim>\<open>uid\<close> raises KeyError.
\<close>

definition count_participation ::
  "CodingPlan list \<Rightarrow> traced_data \<Rightarrow> repeat_participations \<Rightarrow> error + repeat_participations" where
  "count_participation plans ind rp =
     (case consent_is Codes_FALSE ind of
        Inl e \<Rightarrow> Inl e
      | Inr False \<Rightarrow> Inr rp
      | Inr True \<Rightarrow>
          (let w = weeks_participated plans ind in
           if w = 0 then (case ind ''uid'' of None \<Rightarrow> Inl KeyError | Some u \<Rightarrow> Inl AssertionError)
           else (case map_of rp w of
                   None \<Rightarrow> Inl KeyError
                 | Some row \<Rightarrow>
                     Inr (AList.update w
                            (row\<lparr> Number_of_Individuals := Number_of_Individuals row + 1 \<rparr>) rp))))"

definition repeat_participation_counts ::
  "CodingPlan list \<Rightarrow> traced_data list \<Rightarrow> error + repeat_participations" where
  "repeat_participation_counts plans individuals =
     foldE (count_participation plans) individuals (repeat_participations_init plans)"

text \<open>\<^verbatim>\<open>round(count / denominator * 100, 1)\<close> on two ints.\<close>

definition percentage :: "int \<Rightarrow> int \<Rightarrow> error + cell" where
  "percentage n d = (if d = 0 then Inl ZeroDivisionError else Inr (CRound n d))"

definition set_rp_percentage :: "int \<Rightarrow> nat \<times> rp_row \<Rightarrow> error + nat \<times> rp_row" where
  "set_rp_percentage total_individuals kv =
     (case percentage (Number_of_Individuals (snd kv)) total_individuals of
        Inl e \<Rightarrow> Inl e
      | Inr p \<Rightarrow> Inr (fst kv, (snd kv)\<lparr> Pct_of_Individuals := p \<rparr>))"

definition repeat_participations ::
  "CodingPlan list \<Rightarrow> traced_data list \<Rightarrow> error + repeat_participations" where
  "repeat_participations plans individuals =
     (case repeat_participation_counts plans individuals of
        Inl e \<Rightarrow> Inl e
      | Inr rp \<Rightarrow>
          (case mapE (consent_is Codes_FALSE) individuals of
             Inl e \<Rightarrow> Inl e
           | Inr flags \<Rightarrow>
               mapE (set_rp_percentage (int (length (filter id flags)))) rp))"

section \<open>Demographic distributions\<close>

text \<open>
  \<^verbatim>\<open>for plan in PLANS: for cc in plan.coding_configurations\<close> visits the
  configurations of a catalog in this order.
\<close>

definition configurations :: "CodingPlan list \<Rightarrow> CodingConfiguration list" where
  "configurations plans = concat (map coding_configurations plans)"

definition is_stop :: "Code \<Rightarrow> bool" where
  "is_stop c = (control_code c = Some Codes_STOP)"

text \<open>\<open>fst\<close>: analysis_file_key -> code id -> count; \<open>snd\<close>: \<^verbatim>\<open>total_relevant\<close>.\<close>

type_synonym demographic_state = "(string \<times> (string \<times> int) list) list \<times> (string \<times> int) list"

definition init_code_counts :: "Code list \<Rightarrow> (string \<times> int) list" where
  "init_code_counts cs = fold (\<lambda>c d. if is_stop c then d else AList.update (code_id c) 0 d) cs []"

definition init_demographic :: "CodingConfiguration \<Rightarrow> demographic_state \<Rightarrow> demographic_state" where
  "init_demographic cc s =
     (case analysis_file_key cc of
        None \<Rightarrow> s
      | Some k \<Rightarrow>
          (AList.update k (init_code_counts (codes (code_scheme cc))) (fst s),
           AList.update k 0 (snd s)))"

definition demographic_init :: "CodingPlan list \<Rightarrow> demographic_state" where
  "demographic_init plans = fold init_demographic (configurations plans) ([], [])"

text \<open>\<^verbatim>\<open>cc.code_scheme.get_code_with_code_id(td[cc.coded_field]["CodeID"])\<close>\<close>

definition single_code :: "CodingConfiguration \<Rightarrow> traced_data \<Rightarrow> error + Code" where
  "single_code cc td =
     (case td (coded_field cc) of
        None \<Rightarrow> Inl KeyError
      | Some (Label cid) \<Rightarrow> get_code_with_code_id (code_scheme cc) cid
      | Some (Str s) \<Rightarrow> Inl TypeError
      | Some (Labels ls) \<Rightarrow> Inl TypeError)"

definition count_demographic ::
  "traced_data \<Rightarrow> CodingConfiguration \<Rightarrow> demographic_state \<Rightarrow> error + demographic_state" where
  "count_demographic ind cc s =
     (case analysis_file_key cc of
        None \<Rightarrow> Inr s
      | Some k \<Rightarrow>
          if coding_mode cc \<noteq> SINGLE then Inl AssertionError
          else
            (case single_code cc ind of
               Inl e \<Rightarrow> Inl e
             | Inr code \<Rightarrow>
                 (case map_of (fst s) k of
                    None \<Rightarrow> Inl KeyError
                  | Some d \<Rightarrow>
                      (case map_of d (code_id code) of
                         None \<Rightarrow> Inl KeyError
                       | Some n \<Rightarrow>
                           (let dd = AList.update k (AList.update (code_id code) (n + 1) d) (fst s) in
                            if code_type code = NORMAL then
                              (case map_of (snd s) k of
                                 None \<Rightarrow> Inl KeyError
                               | Some t \<Rightarrow> Inr (dd, AList.update k (t + 1) (snd s)))
                            else Inr (dd, snd s))))))"

definition count_individual ::
  "CodingPlan list \<Rightarrow> traced_data \<Rightarrow> demographic_state \<Rightarrow> error + demographic_state" where
  "count_individual plans ind s =
     (case consent_is Codes_TRUE ind of
        Inl e \<Rightarrow> Inl e
      | Inr True \<Rightarrow> Inr s
      | Inr False \<Rightarrow> foldE (count_demographic ind) (configurations plans) s)"

definition demographic_counts :: "CodingPlan list \<Rightarrow> traced_data list \<Rightarrow> error + demographic_state" where
  "demographic_counts plans individuals =
     foldE (count_individual plans) individuals (demographic_init plans)"

record demographic_row =
  Demographic :: string
  Demographic_Code :: string
  Participants_with_Opt_Ins :: int
  Percent :: cell

text \<open>The rows written for one code of a configuration: none for a STOP code.\<close>

definition export_row :: "demographic_state \<Rightarrow> string \<Rightarrow> nat \<times> Code \<Rightarrow> error + demographic_row list" where
  "export_row s k ic =
     (if is_stop (snd ic) then Inr []
      else
        (case map_of (fst s) k of
           None \<Rightarrow> Inl KeyError
         | Some d \<Rightarrow>
             (case map_of d (code_id (snd ic)) of
                None \<Rightarrow> Inl KeyError
              | Some p \<Rightarrow>
                  (if code_type (snd ic) = NORMAL then
                     (case map_of (snd s) k of
                        None \<Rightarrow> Inl KeyError
                      | Some t \<Rightarrow>
                          (case percentage p t of
                             Inl e \<Rightarrow> Inl e
                           | Inr pc \<Rightarrow>
                               Inr [\<lparr> Demographic = (if fst ic = 0 then k else []),
                                      Demographic_Code = string_value (snd ic),
                                      Participants_with_Opt_Ins = p, Percent = pc \<rparr>]))
                   else
                     Inr [\<lparr> Demographic = (if fst ic = 0 then k else []),
                            Demographic_Code = string_value (snd ic),
                            Participants_with_Opt_Ins = p, Percent = CStr [] \<rparr>]))))"

definition export_configuration ::
  "demographic_state \<Rightarrow> CodingConfiguration \<Rightarrow> error + demographic_row list" where
  "export_configuration s cc =
     (case analysis_file_key cc of
        None \<Rightarrow> Inr []
      | Some k \<Rightarrow>
          (case mapE (export_row s k) (List.enumerate 0 (codes (code_scheme cc))) of
             Inl e \<Rightarrow> Inl e
           | Inr rows \<Rightarrow> Inr (concat rows)))"

definition export_demographic :: "CodingPlan list \<Rightarrow> demographic_state \<Rightarrow> error + demographic_row list" where
  "export_demographic plans s =
     (case mapE (export_configuration s) (configurations plans) of
        Inl e \<Rightarrow> Inl e
      | Inr rows \<Rightarrow> Inr (concat rows))"

text \<open>The whole pass: the tallies, then the rows of \<^verbatim>\<open>demographic_distributions.csv\<close>.\<close>

definition demographic_distributions ::
  "CodingPlan list \<Rightarrow> traced_data list \<Rightarrow> error + demographic_row list" where
  "demographic_distributions plans individuals =
     (case demographic_counts plans individuals of
        Inl e \<Rightarrow> Inl e
      | Inr s \<Rightarrow> export_demographic plans s)"

section \<open>Theme distributions\<close>

type_synonym survey_counts = "(string \<times> cell) list"

type_synonym themes = "(string \<times> survey_counts) list"

abbreviation TOTAL_PARTICIPANTS :: string where "TOTAL_PARTICIPANTS \<equiv> ''Total Participants''"
abbreviation TOTAL_RELEVANT :: string where "TOTAL_RELEVANT \<equiv> ''Total Relevant Participants''"

text \<open>\<^verbatim>\<open>f"{cc.analysis_file_key}:{code.string_value}"\<close>, for a key that is not None.\<close>

definition survey_key :: "string \<Rightarrow> Code \<Rightarrow> string" where
  "survey_key k code = k @ '':'' @ string_value code"

definition make_code_slots :: "string \<Rightarrow> Code \<Rightarrow> survey_counts \<Rightarrow> survey_counts" where
  "make_code_slots k code sc =
     (if is_stop code then sc
      else AList.update (survey_key k code @ '' %'') CNone
             (AList.update (survey_key k code) (CInt 0) sc))"

definition make_configuration_slots :: "CodingConfiguration \<Rightarrow> survey_counts \<Rightarrow> survey_counts" where
  "make_configuration_slots cc sc =
     (case analysis_file_key cc of
        None \<Rightarrow> sc
      | Some k \<Rightarrow> fold (make_code_slots k) (codes (code_scheme cc)) sc)"

definition make_survey_counts_dict :: "CodingPlan list \<Rightarrow> survey_counts" where
  "make_survey_counts_dict survey_plans =
     fold make_configuration_slots (configurations survey_plans)
       [(TOTAL_PARTICIPANTS, CInt 0), (''Total Participants %'', CNone)]"

text \<open>
  \<^verbatim>\<open>for label in td[cc.coded_field]\<close> followed by \<^verbatim>\<open>label["CodeID"]\<close>: a list gives its
  labels; a non-empty string gives characters and a label gives its keys, and indexing
  either with \<^verbatim>\<open>"CodeID"\<close> is a TypeError; the empty string gives no iteration.
\<close>

definition iter_labels :: "field_value \<Rightarrow> error + string list" where
  "iter_labels v =
     (case v of
        Labels ls \<Rightarrow> Inr ls
      | Str s \<Rightarrow> if s = [] then Inr [] else Inl TypeError
      | Label cid \<Rightarrow> Inl TypeError)"

definition assigned_codes :: "CodingConfiguration \<Rightarrow> traced_data \<Rightarrow> error + Code list" where
  "assigned_codes cc td =
     (case coding_mode cc of
        SINGLE \<Rightarrow> (case single_code cc td of Inl e \<Rightarrow> Inl e | Inr c \<Rightarrow> Inr [c])
      | MULTIPLE \<Rightarrow>
          (case td (coded_field cc) of
             None \<Rightarrow> Inl KeyError
           | Some v \<Rightarrow>
               (case iter_labels v of
                  Inl e \<Rightarrow> Inl e
                | Inr ls \<Rightarrow> mapE (get_code_with_code_id (code_scheme cc)) ls)))"

text \<open>\<^verbatim>\<open>survey_counts[key] += 1\<close>\<close>

definition increment :: "string \<Rightarrow> survey_counts \<Rightarrow> error + survey_counts" where
  "increment key sc =
     (case map_of sc key of
        None \<Rightarrow> Inl KeyError
      | Some (CInt n) \<Rightarrow> Inr (AList.update key (CInt (n + 1)) sc)
      | Some CNone \<Rightarrow> Inl TypeError
      | Some (CStr s) \<Rightarrow> Inl TypeError
      | Some (CRound a b) \<Rightarrow> Inl FloatOperand)"

definition update_code_count :: "string \<Rightarrow> Code \<Rightarrow> survey_counts \<Rightarrow> error + survey_counts" where
  "update_code_count k code sc = (if is_stop code then Inr sc else increment (survey_key k code) sc)"

definition update_configuration_counts ::
  "traced_data \<Rightarrow> CodingConfiguration \<Rightarrow> survey_counts \<Rightarrow> error + survey_counts" where
  "update_configuration_counts td cc sc =
     (case analysis_file_key cc of
        None \<Rightarrow> Inr sc
      | Some k \<Rightarrow>
          (case assigned_codes cc td of
             Inl e \<Rightarrow> Inl e
           | Inr cs \<Rightarrow> foldE (update_code_count k) cs sc))"

definition update_survey_counts ::
  "CodingPlan list \<Rightarrow> survey_counts \<Rightarrow> traced_data \<Rightarrow> error + survey_counts" where
  "update_survey_counts survey_plans sc td =
     foldE (update_configuration_counts td) (configurations survey_plans) sc"

text \<open>
  \<^verbatim>\<open>set_survey_percentages(survey_counts, total_survey_counts)\<close>. The script calls it
  once with the same dictionary as both arguments; \<open>total_counts = None\<close> is that call, so
  that a read of the total sees what has been written to \<open>sc\<close>.
\<close>

definition the_total :: "survey_counts \<Rightarrow> survey_counts option \<Rightarrow> survey_counts" where
  "the_total sc total_counts = (case total_counts of None \<Rightarrow> sc | Some t \<Rightarrow> t)"

text \<open>\<^verbatim>\<open>c == 0\<close>\<close>

definition equals_zero :: "cell \<Rightarrow> error + bool" where
  "equals_zero c =
     (case c of
        CInt n \<Rightarrow> Inr (n = 0)
      | CNone \<Rightarrow> Inr False
      | CStr s \<Rightarrow> Inr False
      | CRound a b \<Rightarrow> Inl FloatOperand)"

text \<open>\<^verbatim>\<open>round(c / t * 100, 1)\<close> on two cells\<close>

definition ratio :: "cell \<Rightarrow> cell \<Rightarrow> error + cell" where
  "ratio c t =
     (case c of
        CNone \<Rightarrow> Inl TypeError
      | CStr s \<Rightarrow> Inl TypeError
      | CRound a b \<Rightarrow>
          (case t of CNone \<Rightarrow> Inl TypeError | CStr s \<Rightarrow> Inl TypeError
           | CInt y \<Rightarrow> Inl FloatOperand | CRound a' b' \<Rightarrow> Inl FloatOperand)
      | CInt x \<Rightarrow>
          (case t of CNone \<Rightarrow> Inl TypeError | CStr s \<Rightarrow> Inl TypeError
           | CInt y \<Rightarrow> percentage x y | CRound a' b' \<Rightarrow> Inl FloatOperand))"

definition set_total_percentage :: "survey_counts option \<Rightarrow> survey_counts \<Rightarrow> error + survey_counts" where
  "set_total_percentage total_counts sc =
     (case map_of (the_total sc total_counts) TOTAL_PARTICIPANTS of
        None \<Rightarrow> Inl KeyError
      | Some t \<Rightarrow>
          (case equals_zero t of
             Inl e \<Rightarrow> Inl e
           | Inr True \<Rightarrow> Inr (AList.update ''Total Participants %'' (CStr ''-'') sc)
           | Inr False \<Rightarrow>
               (case map_of sc TOTAL_PARTICIPANTS of
                  None \<Rightarrow> Inl KeyError
                | Some c \<Rightarrow>
                    (case ratio c t of
                       Inl e \<Rightarrow> Inl e
                     | Inr p \<Rightarrow> Inr (AList.update ''Total Participants %'' p sc)))))"

definition set_code_percentage ::
  "survey_counts option \<Rightarrow> string \<Rightarrow> Code \<Rightarrow> survey_counts \<Rightarrow> error + survey_counts" where
  "set_code_percentage total_counts k code sc =
     (if is_stop code then Inr sc
      else
        (case map_of sc (survey_key k code) of
           None \<Rightarrow> Inl KeyError
         | Some c \<Rightarrow>
             (case map_of (the_total sc total_counts) (survey_key k code) of
                None \<Rightarrow> Inl KeyError
              | Some t \<Rightarrow>
                  (case equals_zero t of
                     Inl e \<Rightarrow> Inl e
                   | Inr True \<Rightarrow> Inr (AList.update (survey_key k code @ '' %'') (CStr ''-'') sc)
                   | Inr False \<Rightarrow>
                       (case ratio c t of
                          Inl e \<Rightarrow> Inl e
                        | Inr p \<Rightarrow> Inr (AList.update (survey_key k code @ '' %'') p sc))))))"

definition set_configuration_percentages ::
  "survey_counts option \<Rightarrow> CodingConfiguration \<Rightarrow> survey_counts \<Rightarrow> error + survey_counts" where
  "set_configuration_percentages total_counts cc sc =
     (case analysis_file_key cc of
        None \<Rightarrow> Inr sc
      | Some k \<Rightarrow> foldE (set_code_percentage total_counts k) (codes (code_scheme cc)) sc)"

definition set_survey_percentages ::
  "CodingPlan list \<Rightarrow> survey_counts \<Rightarrow> survey_counts option \<Rightarrow> error + survey_counts" where
  "set_survey_percentages survey_plans sc total_counts =
     (case set_total_percentage total_counts sc of
        Inl e \<Rightarrow> Inl e
      | Inr sc' \<Rightarrow> foldE (set_configuration_percentages total_counts) (configurations survey_plans) sc')"

text \<open>\<^verbatim>\<open>f"{cc.analysis_file_key}{code.string_value}"\<close>: a key that is None prints as "None".\<close>

definition theme_key :: "CodingConfiguration \<Rightarrow> Code \<Rightarrow> string" where
  "theme_key cc code =
     (case analysis_file_key cc of None \<Rightarrow> ''None'' | Some k \<Rightarrow> k) @ string_value code"

definition init_theme :: "CodingPlan list \<Rightarrow> CodingConfiguration \<Rightarrow> Code \<Rightarrow> themes \<Rightarrow> themes" where
  "init_theme survey_plans cc code themes =
     (if is_stop code then themes
      else AList.update (theme_key cc code) (make_survey_counts_dict survey_plans) themes)"

definition init_configuration_themes ::
  "CodingPlan list \<Rightarrow> CodingConfiguration \<Rightarrow> themes \<Rightarrow> error + themes" where
  "init_configuration_themes survey_plans cc themes =
     (if coding_mode cc \<noteq> MULTIPLE then Inl AssertionError
      else
        Inr (fold (init_theme survey_plans cc) (codes (code_scheme cc))
               (AList.update TOTAL_RELEVANT (make_survey_counts_dict survey_plans) themes)))"

definition init_themes :: "CodingPlan list \<Rightarrow> CodingPlan \<Rightarrow> error + themes" where
  "init_themes survey_plans episode_plan =
     foldE (init_configuration_themes survey_plans) (coding_configurations episode_plan) []"

text \<open>
  \<^verbatim>\<open>themes[key]["Total Participants"] += 1\<close> and
  \<^verbatim>\<open>update_survey_counts(themes[key], td)\<close>
\<close>

definition count_in_theme :: "CodingPlan list \<Rightarrow> string \<Rightarrow> traced_data \<Rightarrow> themes \<Rightarrow> error + themes" where
  "count_in_theme survey_plans key td themes =
     (case map_of themes key of
        None \<Rightarrow> Inl KeyError
      | Some sc \<Rightarrow>
          (case increment TOTAL_PARTICIPANTS sc of
             Inl e \<Rightarrow> Inl e
           | Inr sc' \<Rightarrow>
               (case update_survey_counts survey_plans sc' td of
                  Inl e \<Rightarrow> Inl e
                | Inr sc'' \<Rightarrow> Inr (AList.update key sc'' themes))))"

text \<open>The body of the loop over the labels; \<open>snd s\<close> is \<^verbatim>\<open>relevant_participant\<close>.\<close>

definition count_label ::
  "CodingPlan list \<Rightarrow> traced_data \<Rightarrow> CodingConfiguration \<Rightarrow> string \<Rightarrow> themes \<times> bool
     \<Rightarrow> error + themes \<times> bool" where
  "count_label survey_plans td cc label s =
     (case get_code_with_code_id (code_scheme cc) label of
        Inl e \<Rightarrow> Inl e
      | Inr code \<Rightarrow>
          if is_stop code then Inr s
          else
            (case count_in_theme survey_plans (theme_key cc code) td (fst s) of
               Inl e \<Rightarrow> Inl e
             | Inr themes \<Rightarrow> Inr (themes, snd s \<or> code_type code = NORMAL)))"

definition count_configuration_labels ::
  "CodingPlan list \<Rightarrow> traced_data \<Rightarrow> CodingConfiguration \<Rightarrow> themes \<times> bool
     \<Rightarrow> error + themes \<times> bool" where
  "count_configuration_labels survey_plans td cc s =
     (if coding_mode cc \<noteq> MULTIPLE then Inl AssertionError
      else
        (case td (coded_field cc) of
           None \<Rightarrow> Inl KeyError
         | Some v \<Rightarrow>
             (case iter_labels v of
                Inl e \<Rightarrow> Inl e
              | Inr ls \<Rightarrow> foldE (count_label survey_plans td cc) ls s)))"

text \<open>The body of the loop over the individuals of one episode.\<close>

definition count_themes ::
  "CodingPlan list \<Rightarrow> CodingPlan \<Rightarrow> traced_data \<Rightarrow> themes \<Rightarrow> error + themes" where
  "count_themes survey_plans episode_plan td themes =
     (case consent_is Codes_TRUE td of
        Inl e \<Rightarrow> Inl e
      | Inr True \<Rightarrow> Inr themes
      | Inr False \<Rightarrow>
          (case foldE (count_configuration_labels survey_plans td)
                  (coding_configurations episode_plan) (themes, False) of
             Inl e \<Rightarrow> Inl e
           | Inr s \<Rightarrow>
               if snd s then count_in_theme survey_plans TOTAL_RELEVANT td (fst s)
               else Inr (fst s)))"

text \<open>
  \<^verbatim>\<open>set_survey_percentages(themes[key], themes["Total Relevant Participants"])\<close>: both
  arguments are the same dictionary when the key is that of the total row.
\<close>

definition set_theme_percentages :: "CodingPlan list \<Rightarrow> string \<Rightarrow> themes \<Rightarrow> error + themes" where
  "set_theme_percentages survey_plans key themes =
     (case map_of themes key of
        None \<Rightarrow> Inl KeyError
      | Some theme \<Rightarrow>
          (case map_of themes TOTAL_RELEVANT of
             None \<Rightarrow> Inl KeyError
           | Some total_counts \<Rightarrow>
               (case set_survey_percentages survey_plans theme
                       (if key = TOTAL_RELEVANT then None else Some total_counts) of
                  Inl e \<Rightarrow> Inl e
                | Inr theme' \<Rightarrow> Inr (AList.update key theme' themes))))"

definition set_code_theme_percentages ::
  "CodingPlan list \<Rightarrow> CodingConfiguration \<Rightarrow> Code \<Rightarrow> themes \<Rightarrow> error + themes" where
  "set_code_theme_percentages survey_plans cc code themes =
     (if code_type code \<noteq> NORMAL then Inr themes
      else set_theme_percentages survey_plans (theme_key cc code) themes)"

definition set_configuration_theme_percentages ::
  "CodingPlan list \<Rightarrow> CodingConfiguration \<Rightarrow> themes \<Rightarrow> error + themes" where
  "set_configuration_theme_percentages survey_plans cc themes =
     (if coding_mode cc \<noteq> MULTIPLE then Inl AssertionError
      else foldE (set_code_theme_percentages survey_plans cc) (codes (code_scheme cc)) themes)"

text \<open>The body of the loop over the RQA plans: the themes of one episode.\<close>

definition episode_counts ::
  "CodingPlan list \<Rightarrow> CodingPlan \<Rightarrow> traced_data list \<Rightarrow> error + themes" where
  "episode_counts survey_plans episode_plan individuals =
     (case init_themes survey_plans episode_plan of
        Inl e \<Rightarrow> Inl e
      | Inr themes \<Rightarrow> foldE (count_themes survey_plans episode_plan) individuals themes)"

definition episode_themes ::
  "CodingPlan list \<Rightarrow> CodingPlan \<Rightarrow> traced_data list \<Rightarrow> error + themes" where
  "episode_themes survey_plans episode_plan individuals =
     (case episode_counts survey_plans episode_plan individuals of
        Inl e \<Rightarrow> Inl e
      | Inr themes \<Rightarrow>
          (case set_theme_percentages survey_plans TOTAL_RELEVANT themes of
             Inl e \<Rightarrow> Inl e
           | Inr themes' \<Rightarrow>
               foldE (set_configuration_theme_percentages survey_plans)
                 (coding_configurations episode_plan) themes'))"

definition add_episode ::
  "CodingPlan list \<Rightarrow> traced_data list \<Rightarrow> CodingPlan \<Rightarrow> (string \<times> themes) list
     \<Rightarrow> error + (string \<times> themes) list" where
  "add_episode survey_plans individuals episode_plan episodes =
     (case episode_themes survey_plans episode_plan individuals of
        Inl e \<Rightarrow> Inl e
      | Inr themes \<Rightarrow> Inr (AList.update (raw_field episode_plan) themes episodes))"

definition theme_distributions ::
  "CodingPlan list \<Rightarrow> CodingPlan list \<Rightarrow> traced_data list \<Rightarrow> error + (string \<times> themes) list" where
  "theme_distributions survey_plans rqa_plans individuals =
     foldE (add_episode survey_plans individuals) rqa_plans []"

section \<open>Sample messages\<close>

text \<open>
  \<^verbatim>\<open>random.sample(population, k)\<close> of the standard library: \<open>k\<close> elements chosen
  without replacement, ValueError when \<open>k\<close> exceeds the population. The random source
  is a tape of numbers read from position \<open>i\<close>; each draw takes the element at the
  drawn index out of the pool.
\<close>

fun draw :: "(nat \<Rightarrow> nat) \<Rightarrow> nat \<Rightarrow> 'a list \<Rightarrow> nat \<Rightarrow> 'a list" where
  "draw tape i pool 0 = []"
| "draw tape i pool (Suc k) =
     (let j = tape i mod length pool
      in pool ! j # draw tape (Suc i) (take j pool @ drop (Suc j) pool) k)"

definition random_sample :: "(nat \<Rightarrow> nat) \<Rightarrow> nat \<Rightarrow> 'a list \<Rightarrow> nat \<Rightarrow> error + 'a list" where
  "random_sample tape i population k =
     (if length population < k then Inl ValueError else Inr (draw tape i population k))"

record sample_row =
  Sample_Episode :: string
  Sample_Code_Scheme :: string
  Sample_Code :: string
  Sample_Message :: field_value

type_synonym code_to_messages = "(string \<times> field_value list) list"

definition init_code_to_messages :: "CodingConfiguration \<Rightarrow> code_to_messages" where
  "init_code_to_messages cc =
     fold (\<lambda>code m. AList.update (string_value code) [] m) (codes (code_scheme cc)) []"

text \<open>\<^verbatim>\<open>code_to_messages[code.string_value].append(msg[plan.raw_field])\<close>\<close>

definition collect_label ::
  "CodingPlan \<Rightarrow> CodingConfiguration \<Rightarrow> traced_data \<Rightarrow> string \<Rightarrow> code_to_messages
     \<Rightarrow> error + code_to_messages" where
  "collect_label plan cc msg label m =
     (case get_code_with_code_id (code_scheme cc) label of
        Inl e \<Rightarrow> Inl e
      | Inr code \<Rightarrow>
          (case map_of m (string_value code) of
             None \<Rightarrow> Inl KeyError
           | Some pool \<Rightarrow>
               (case msg (raw_field plan) of
                  None \<Rightarrow> Inl KeyError
                | Some raw \<Rightarrow> Inr (AList.update (string_value code) (pool @ [raw]) m))))"

text \<open>\<^verbatim>\<open>AnalysisUtils.opt_in\<close> is a parameter.\<close>

type_synonym opt_in = "traced_data \<Rightarrow> string \<Rightarrow> CodingPlan \<Rightarrow> bool"

definition collect_message ::
  "opt_in \<Rightarrow> CodingPlan \<Rightarrow> CodingConfiguration \<Rightarrow> traced_data \<Rightarrow> code_to_messages
     \<Rightarrow> error + code_to_messages" where
  "collect_message opt_in plan cc msg m =
     (if \<not> opt_in msg CONSENT_WITHDRAWN_KEY plan then Inr m
      else
        (case msg (coded_field cc) of
           None \<Rightarrow> Inl KeyError
         | Some v \<Rightarrow>
             (case iter_labels v of
                Inl e \<Rightarrow> Inl e
              | Inr ls \<Rightarrow> foldE (collect_label plan cc msg) ls m)))"

definition collect_messages ::
  "opt_in \<Rightarrow> CodingPlan \<Rightarrow> CodingConfiguration \<Rightarrow> traced_data list \<Rightarrow> error + code_to_messages" where
  "collect_messages opt_in plan cc messages =
     foldE (collect_message opt_in plan cc) messages (init_code_to_messages cc)"

text \<open>
  The body of the loop over the keys of \<^verbatim>\<open>code_to_messages\<close>; the state is the position
  on the random tape and the list \<^verbatim>\<open>samples\<close>.
\<close>

definition sample_code ::
  "(nat \<Rightarrow> nat) \<Rightarrow> CodingPlan \<Rightarrow> CodingConfiguration \<Rightarrow> string \<times> field_value list
     \<Rightarrow> nat \<times> sample_row list \<Rightarrow> error + nat \<times> sample_row list" where
  "sample_code tape plan cc kv s =
     (let sample_size = min 100 (length (snd kv)) in
      case random_sample tape (fst s) (snd kv) sample_size of
        Inl e \<Rightarrow> Inl e
      | Inr sample_messages \<Rightarrow>
          Inr (fst s + sample_size,
               snd s @ map (\<lambda>msg. \<lparr> Sample_Episode = dataset_name plan,
                                     Sample_Code_Scheme = name (code_scheme cc),
                                     Sample_Code = fst kv,
                                     Sample_Message = msg \<rparr>) sample_messages))"

definition sample_configuration ::
  "(nat \<Rightarrow> nat) \<Rightarrow> opt_in \<Rightarrow> traced_data list \<Rightarrow> CodingPlan \<times> CodingConfiguration
     \<Rightarrow> nat \<times> sample_row list \<Rightarrow> error + nat \<times> sample_row list" where
  "sample_configuration tape opt_in messages pc s =
     (case collect_messages opt_in (fst pc) (snd pc) messages of
        Inl e \<Rightarrow> Inl e
      | Inr m \<Rightarrow> foldE (sample_code tape (fst pc) (snd pc)) m s)"

definition sample_messages ::
  "(nat \<Rightarrow> nat) \<Rightarrow> opt_in \<Rightarrow> CodingPlan list \<Rightarrow> traced_data list \<Rightarrow> error + sample_row list" where
  "sample_messages tape opt_in plans messages =
     (case foldE (sample_configuration tape opt_in messages)
             (concat (map (\<lambda>plan. map (Pair plan) (coding_configurations plan)) plans)) (0, []) of
        Inl e \<Rightarrow> Inl e
      | Inr s \<Rightarrow> Inr (snd s))"

section \<open>Reference predicates and example data\<close>

text \<open>
  An individual who has not withdrawn consent and has a value in the raw field of
  exactly \<open>k\<close> of the RQA plans.
\<close>

definition participates_times :: "CodingPlan list \<Rightarrow> nat \<Rightarrow> traced_data \<Rightarrow> bool" where
  "participates_times plans k ind =
     (ind CONSENT_WITHDRAWN_KEY = Some (Str Codes_FALSE) \<and> weeks_participated plans ind = k)"

text \<open>
  A small catalog and a few records, used to run the passes: a scheme with a normal
  code, a control code that is not STOP and the STOP code; two episodes coded in
  multi-select mode.
\<close>

definition ex_codes :: "Code list" where
  "ex_codes =
     [\<lparr> code_id = ''c-yes'', string_value = ''yes'', code_type = NORMAL, control_code = None \<rparr>,
      \<lparr> code_id = ''c-nc'', string_value = ''NC'', code_type = CONTROL, control_code = Some ''NC'' \<rparr>,
      \<lparr> code_id = ''c-stop'', string_value = ''stop'', code_type = CONTROL,
         control_code = Some Codes_STOP \<rparr>]"

definition ex_scheme :: CodeScheme where
  "ex_scheme = \<lparr> name = ''scheme'', codes = ex_codes \<rparr>"

definition ex_episode :: "string \<Rightarrow> CodingPlan" where
  "ex_episode e =
     \<lparr> dataset_name = e, raw_field = e @ ''_raw'',
        coding_configurations =
          [\<lparr> coded_field = e @ ''_coded'', code_scheme = ex_scheme, coding_mode = MULTIPLE,
              analysis_file_key = Some (e @ ''_'') \<rparr>] \<rparr>"

definition ex_rqa_plans :: "CodingPlan list" where
  "ex_rqa_plans = [ex_episode ''e1'', ex_episode ''e2'']"

definition ex_both :: traced_data where
  "ex_both = [CONSENT_WITHDRAWN_KEY \<mapsto> Str Codes_FALSE, ''uid'' \<mapsto> Str ''a'',
              ''e1_raw'' \<mapsto> Str ''hello'', ''e2_raw'' \<mapsto> Str ''again'']"

definition ex_first :: traced_data where
  "ex_first = [CONSENT_WITHDRAWN_KEY \<mapsto> Str Codes_FALSE, ''uid'' \<mapsto> Str ''b'',
               ''e1_raw'' \<mapsto> Str ''hi'']"

definition ex_silent :: traced_data where
  "ex_silent = [CONSENT_WITHDRAWN_KEY \<mapsto> Str Codes_FALSE, ''uid'' \<mapsto> Str ''c'']"

definition ex_withdrawn :: traced_data where
  "ex_withdrawn = [CONSENT_WITHDRAWN_KEY \<mapsto> Str Codes_TRUE, ''uid'' \<mapsto> Str ''d'',
                   ''e1_raw'' \<mapsto> Str ''STOP'']"

definition ex_utils :: analysis_utils where
  "ex_utils =
     \<lparr> filter_opt_ins = (\<lambda>tds key plans. tds), filter_fully_labelled = (\<lambda>tds key plans. tds),
        filter_partially_labelled = (\<lambda>tds key plans. tds), filter_relevant = (\<lambda>tds key plans. tds) \<rparr>"

text \<open>The analysis keys of a catalog, in the order of its configurations.\<close>

definition analysis_keys :: "CodingConfiguration list \<Rightarrow> string list" where
  "analysis_keys ccs = List.map_filter analysis_file_key ccs"

text \<open>The sum of the counts under one analysis key.\<close>

definition key_total :: "string \<Rightarrow> demographic_state \<Rightarrow> int" where
  "key_total k s = (case map_of (fst s) k of None \<Rightarrow> 0 | Some d \<Rightarrow> sum_list (map snd d))"

text \<open>An individual the demographic and theme passes do not skip.\<close>

definition counted :: "traced_data \<Rightarrow> bool" where
  "counted ind = (consent_is Codes_TRUE ind = Inr False)"

text \<open>
  A demographic catalog in which no two configurations share an analysis key, and every
  configuration with a key is single-select over a scheme without repeated code ids.
\<close>

definition well_formed_demog :: "CodingPlan list \<Rightarrow> bool" where
  "well_formed_demog plans =
     (distinct (analysis_keys (configurations plans)) \<and>
      list_all (\<lambda>cc. analysis_file_key cc \<noteq> None \<longrightarrow>
                  coding_mode cc = SINGLE \<and> distinct (map code_id (codes (code_scheme cc))))
        (configurations plans))"

text \<open>Every keyed configuration's field of the individual resolves to a code.\<close>

definition resolves :: "CodingPlan list \<Rightarrow> traced_data \<Rightarrow> bool" where
  "resolves plans ind =
     list_all (\<lambda>cc. analysis_file_key cc \<noteq> None \<longrightarrow> \<not> isl (single_code cc ind))
       (configurations plans)"

text \<open>The field of a keyed configuration resolves to a STOP code.\<close>

definition stop_assigned :: "traced_data \<Rightarrow> CodingConfiguration \<Rightarrow> bool" where
  "stop_assigned ind cc =
     (analysis_file_key cc \<noteq> None \<and>
      (case single_code cc ind of Inl e \<Rightarrow> False | Inr c \<Rightarrow> is_stop c))"

definition assigned_stop :: "CodingPlan list \<Rightarrow> traced_data \<Rightarrow> bool" where
  "assigned_stop plans ind = (counted ind \<and> list_ex (stop_assigned ind) (configurations plans))"

text \<open>
  What the export is expected to write, read off the tallies: the count a tally holds for
  a code id under a key, and the denominator (the individuals under a normal code) of a key.
\<close>

definition tally_of :: "demographic_state \<Rightarrow> string \<Rightarrow> string \<Rightarrow> int" where
  "tally_of s k cid =
     (case map_of (fst s) k of
        None \<Rightarrow> 0
      | Some d \<Rightarrow> (case map_of d cid of None \<Rightarrow> 0 | Some n \<Rightarrow> n))"

definition denominator_of :: "demographic_state \<Rightarrow> string \<Rightarrow> int" where
  "denominator_of s k = (case map_of (snd s) k of None \<Rightarrow> 0 | Some t \<Rightarrow> t)"

text \<open>
  The row of the code at position \<open>i\<close> of the scheme: the key on the first position only, the
  string value of the code, its tally, and the tally over the denominator of the key as a
  percentage for a normal code, the empty string for any other.
\<close>

definition expected_row :: "demographic_state \<Rightarrow> string \<Rightarrow> nat \<times> Code \<Rightarrow> demographic_row" where
  "expected_row s k ic =
     \<lparr> Demographic = (if fst ic = 0 then k else []),
       Demographic_Code = string_value (snd ic),
       Participants_with_Opt_Ins = tally_of s k (code_id (snd ic)),
       Percent = (if code_type (snd ic) = NORMAL
                  then CRound (tally_of s k (code_id (snd ic))) (denominator_of s k)
                  else CStr []) \<rparr>"

text \<open>
  The rows of a configuration: none without an analysis key, otherwise one per code of the
  scheme that is not STOP, in the order of the scheme; the rows of a catalog are those of
  its configurations, in order.
\<close>

definition expected_rows_of :: "demographic_state \<Rightarrow> CodingConfiguration \<Rightarrow> demographic_row list" where
  "expected_rows_of s cc =
     (case analysis_file_key cc of
        None \<Rightarrow> []
      | Some k \<Rightarrow>
          map (expected_row s k)
            (filter (\<lambda>ic. \<not> is_stop (snd ic)) (List.enumerate 0 (codes (code_scheme cc)))))"

definition expected_rows :: "CodingPlan list \<Rightarrow> demographic_state \<Rightarrow> demographic_row list" where
  "expected_rows plans s = concat (map (expected_rows_of s) (configurations plans))"

text \<open>
  A keyed configuration whose denominator is 0 and whose scheme holds a normal code to
  export: its percentage has no value.
\<close>

definition undefined_percentage :: "demographic_state \<Rightarrow> CodingConfiguration \<Rightarrow> bool" where
  "undefined_percentage s cc =
     (case analysis_file_key cc of
        None \<Rightarrow> False
      | Some k \<Rightarrow>
          denominator_of s k = 0 \<and>
          list_ex (\<lambda>c. \<not> is_stop c \<and> code_type c = NORMAL) (codes (code_scheme cc)))"

text \<open>
  Invariant of the tallies: every keyed configuration has its dictionary of counts, whose
  keys are the ids of the codes of its scheme that are not STOP, and its denominator.
\<close>

definition tallies_ready :: "CodingConfiguration list \<Rightarrow> demographic_state \<Rightarrow> bool" where
  "tallies_ready ccs s =
     (\<forall>cc\<in>set ccs. \<forall>k. analysis_file_key cc = Some k \<longrightarrow>
        (\<exists>d. map_of (fst s) k = Some d \<and>
             dom (map_of d) = code_id ` {c \<in> set (codes (code_scheme cc)). \<not> is_stop c})
        \<and> map_of (snd s) k \<noteq> None)"

text \<open>A demographic catalog: a keyed single-select configuration and one without a key.\<close>

definition ex_demog_plans :: "CodingPlan list" where
  "ex_demog_plans =
     [\<lparr> dataset_name = ''demographics'', raw_field = ''gender_raw'',
         coding_configurations =
           [\<lparr> coded_field = ''gender_coded'', code_scheme = ex_scheme, coding_mode = SINGLE,
               analysis_file_key = Some ''gender'' \<rparr>,
            \<lparr> coded_field = ''age_coded'', code_scheme = ex_scheme, coding_mode = MULTIPLE,
               analysis_file_key = None \<rparr>] \<rparr>]"

text \<open>
  A demographic catalog whose only configuration is keyed and multi-select, over a scheme
  of control codes.
\<close>

definition ex_control_scheme :: CodeScheme where
  "ex_control_scheme =
     \<lparr> name = ''controls'',
        codes =
          [\<lparr> code_id = ''c-nc'', string_value = ''NC'', code_type = CONTROL,
              control_code = Some ''NC'' \<rparr>,
           \<lparr> code_id = ''c-stop'', string_value = ''stop'', code_type = CONTROL,
              control_code = Some Codes_STOP \<rparr>] \<rparr>"

definition ex_multi_demog_plans :: "CodingPlan list" where
  "ex_multi_demog_plans =
     [\<lparr> dataset_name = ''demographics'', raw_field = ''age_raw'',
         coding_configurations =
           [\<lparr> coded_field = ''age_coded'', code_scheme = ex_control_scheme, coding_mode = MULTIPLE,
               analysis_file_key = Some ''age'' \<rparr>] \<rparr>]"

text \<open>
  An individual with a consent flag, one label in the demographic field and a list of
  labels in the coded field of the first episode.
\<close>

definition ex_individual :: "string \<Rightarrow> string \<Rightarrow> string list \<Rightarrow> traced_data" where
  "ex_individual consent gender labels =
     [CONSENT_WITHDRAWN_KEY \<mapsto> Str consent, ''uid'' \<mapsto> Str ''u'',
      ''gender_coded'' \<mapsto> Label gender, ''e1_raw'' \<mapsto> Str ''text'',
      ''e1_coded'' \<mapsto> Labels labels]"

text \<open>
  The labels the loops read from the coded field of a configuration (none when the
  field is missing or not iterable: the loops raise there).
\<close>

definition labels_of :: "CodingConfiguration \<Rightarrow> traced_data \<Rightarrow> string list" where
  "labels_of cc td =
     (case td (coded_field cc) of
        None \<Rightarrow> []
      | Some v \<Rightarrow> (case iter_labels v of Inl e \<Rightarrow> [] | Inr ls \<Rightarrow> ls))"

text \<open>
  A label whose code is not STOP and has the given theme key: the labels that
  increment the row of that theme.
\<close>

definition counts_for_theme :: "string \<Rightarrow> CodingConfiguration \<Rightarrow> string \<Rightarrow> bool" where
  "counts_for_theme key cc label =
     (case get_code_with_code_id (code_scheme cc) label of
        Inl e \<Rightarrow> False
      | Inr code \<Rightarrow> \<not> is_stop code \<and> theme_key cc code = key)"

text \<open>
  How many labels of an individual, over the configurations of the episode, increment
  the row of a theme: one per label, repeated labels included.
\<close>

definition theme_labels :: "CodingPlan \<Rightarrow> string \<Rightarrow> traced_data \<Rightarrow> nat" where
  "theme_labels plan key td =
     sum_list (map (\<lambda>cc. length (filter (counts_for_theme key cc) (labels_of cc td)))
                 (coding_configurations plan))"

text \<open>
  A label that sets \<^verbatim>\<open>relevant_participant\<close>.
\<close>

definition marks_relevant :: "CodingConfiguration \<Rightarrow> string \<Rightarrow> bool" where
  "marks_relevant cc label =
     (case get_code_with_code_id (code_scheme cc) label of
        Inl e \<Rightarrow> False
      | Inr code \<Rightarrow> \<not> is_stop code \<and> code_type code = NORMAL)"

definition relevant_participant :: "CodingPlan \<Rightarrow> traced_data \<Rightarrow> bool" where
  "relevant_participant plan td =
     list_ex (\<lambda>cc. list_ex (marks_relevant cc) (labels_of cc td)) (coding_configurations plan)"

text \<open>
  The number in the slot "Total Participants" of the row of a theme.
\<close>

definition tp_count :: "string \<Rightarrow> themes \<Rightarrow> int" where
  "tp_count key themes =
     (case map_of themes key of
        None \<Rightarrow> 0
      | Some sc \<Rightarrow> (case map_of sc TOTAL_PARTICIPANTS of Some (CInt n) \<Rightarrow> n | _ \<Rightarrow> 0))"

definition all_counted :: "themes \<Rightarrow> bool" where
  "all_counted themes =
     (\<forall>k sc. map_of themes k = Some sc \<longrightarrow> (\<exists>n. map_of sc TOTAL_PARTICIPANTS = Some (CInt n)))"

text \<open>
  What one individual adds to the slot "Total Participants" of a row.
\<close>

definition theme_total :: "CodingPlan \<Rightarrow> string \<Rightarrow> traced_data \<Rightarrow> int" where
  "theme_total plan k td =
     (if counted td
      then int (theme_labels plan k td)
           + (if k = TOTAL_RELEVANT \<and> relevant_participant plan td then 1 else 0)
      else 0)"

text \<open>
  Three individuals: one with the normal code in two labels and a control code, one
  with the control code only, one who withdrew consent.
\<close>

definition ex_people :: "traced_data list" where
  "ex_people =
     [ex_individual Codes_FALSE ''c-yes'' [''c-yes'', ''c-yes'', ''c-nc''],
      ex_individual Codes_FALSE ''c-nc'' [''c-nc''],
      ex_individual Codes_TRUE ''c-stop'' [''c-stop'']]"

text \<open>
  An individual with at least one label, in the configurations of the episode, whose
  code is of type NORMAL.
\<close>

definition has_normal_code :: "CodingPlan \<Rightarrow> traced_data \<Rightarrow> bool" where
  "has_normal_code plan td =
     list_ex (\<lambda>cc. list_ex (\<lambda>label. case get_code_with_code_id (code_scheme cc) label of
                                      Inl e \<Rightarrow> False
                                    | Inr code \<Rightarrow> code_type code = NORMAL)
                     (labels_of cc td))
       (coding_configurations plan)"

text \<open>
  A property of every code of every configuration of a plan.
\<close>

definition plan_codes_all :: "(CodingConfiguration \<Rightarrow> Code \<Rightarrow> bool) \<Rightarrow> CodingPlan \<Rightarrow> bool" where
  "plan_codes_all P plan =
     list_all (\<lambda>cc. list_all (P cc) (codes (code_scheme cc))) (coding_configurations plan)"

text \<open>
  A normal code carries no STOP control code; no theme shares the key of the total row.
\<close>

definition normal_not_stop :: "CodingConfiguration \<Rightarrow> Code \<Rightarrow> bool" where
  "normal_not_stop cc code = (code_type code = NORMAL \<longrightarrow> \<not> is_stop code)"

definition total_row_reserved :: "CodingConfiguration \<Rightarrow> Code \<Rightarrow> bool" where
  "total_row_reserved cc code = (is_stop code \<or> theme_key cc code \<noteq> TOTAL_RELEVANT)"

text \<open>
  A label that resolves to a code with the given string value.
\<close>

definition label_has_value :: "CodingConfiguration \<Rightarrow> string \<Rightarrow> string \<Rightarrow> bool" where
  "label_has_value cc sv label =
     (case get_code_with_code_id (code_scheme cc) label of
        Inl e \<Rightarrow> False
      | Inr code \<Rightarrow> string_value code = sv)"

text \<open>
  The number of label assignments of a string value among the opt-in messages, and
  the number of opt-in messages that carry it.
\<close>

definition assigned_count ::
  "opt_in \<Rightarrow> CodingPlan \<Rightarrow> CodingConfiguration \<Rightarrow> traced_data list \<Rightarrow> string \<Rightarrow> nat" where
  "assigned_count opt_in plan cc messages sv =
     sum_list (map (\<lambda>msg. if opt_in msg CONSENT_WITHDRAWN_KEY plan
                           then length (filter (label_has_value cc sv) (labels_of cc msg))
                           else 0) messages)"

definition responses_assigned ::
  "opt_in \<Rightarrow> CodingPlan \<Rightarrow> CodingConfiguration \<Rightarrow> traced_data list \<Rightarrow> string \<Rightarrow> nat" where
  "responses_assigned opt_in plan cc messages sv =
     length (filter (\<lambda>msg. opt_in msg CONSENT_WITHDRAWN_KEY plan
                            \<and> list_ex (label_has_value cc sv) (labels_of cc msg)) messages)"

definition assigned_once :: "CodingConfiguration \<Rightarrow> string \<Rightarrow> traced_data \<Rightarrow> bool" where
  "assigned_once cc sv msg = (length (filter (label_has_value cc sv) (labels_of cc msg)) \<le> 1)"

text \<open>
  The length of the list collected under a string value.
\<close>

definition pool_size :: "string \<Rightarrow> code_to_messages \<Rightarrow> nat" where
  "pool_size sv m = (case map_of m sv of None \<Rightarrow> 0 | Some pool \<Rightarrow> length pool)"

text \<open>
  An opt-in message with its raw field and a list of labels that resolve in the scheme.
\<close>

definition well_coded :: "opt_in \<Rightarrow> CodingPlan \<Rightarrow> CodingConfiguration \<Rightarrow> traced_data \<Rightarrow> bool" where
  "well_coded opt_in plan cc msg =
     (opt_in msg CONSENT_WITHDRAWN_KEY plan \<longrightarrow>
        msg (raw_field plan) \<noteq> None \<and>
        (case msg (coded_field cc) of
           Some (Labels ls) \<Rightarrow>
             list_all (\<lambda>label. \<not> isl (get_code_with_code_id (code_scheme cc) label)) ls
         | Some (Label cid) \<Rightarrow> False
         | Some (Str x) \<Rightarrow> False
         | None \<Rightarrow> False))"

text \<open>
  A stand-in for \<^verbatim>\<open>AnalysisUtils.opt_in\<close>.
\<close>

definition ex_opt_in :: opt_in where
  "ex_opt_in msg key plan = (msg key = Some (Str Codes_FALSE) \<and> msg (raw_field plan) \<noteq> None)"

section \<open>Properties\<close>

subsection \<open>Example data\<close>

lemma ex_weeks [simp]:
  "weeks_participated ex_rqa_plans ex_both = 2"
  "weeks_participated ex_rqa_plans ex_first = 1"
  "weeks_participated ex_rqa_plans ex_silent = 0"
  by (simp_all add: weeks_participated_def ex_rqa_plans_def ex_episode_def ex_both_def ex_first_def
      ex_silent_def)

lemma ex_consent [simp]:
  "ex_both CONSENT_WITHDRAWN_KEY = Some (Str Codes_FALSE)"
  "ex_first CONSENT_WITHDRAWN_KEY = Some (Str Codes_FALSE)"
  "ex_silent CONSENT_WITHDRAWN_KEY = Some (Str Codes_FALSE)"
  "ex_withdrawn CONSENT_WITHDRAWN_KEY = Some (Str Codes_TRUE)"
  "ex_both ''uid'' = Some (Str ''a'')"
  "ex_first ''uid'' = Some (Str ''b'')"
  "ex_silent ''uid'' = Some (Str ''c'')"
  by (simp_all add: ex_both_def ex_first_def ex_silent_def ex_withdrawn_def)

subsection \<open>Engagement counts\<close>

lemma update_set_subset: "set (AList.update k v al) \<subseteq> insert (k, v) (set al)"
  by (induction al) auto

lemma update_last_fresh: "k \<notin> fst ` set al \<Longrightarrow> last (AList.update k v al) = (k, v)"
  by (induction al) auto

lemma episode_rows_entries:
  "(k, row) \<in> set (fold (\<lambda>plan ec. AList.update (dataset_name plan) (f plan) ec) plans acc) \<Longrightarrow>
   (k, row) \<in> set acc \<or> (\<exists>plan\<in>set plans. k = dataset_name plan \<and> row = f plan)"
proof (induction plans arbitrary: acc)
  case Nil
  then show ?case by simp
next
  case (Cons p ps)
  from Cons.IH[OF Cons.prems[simplified]] show ?case
    using update_set_subset[of "dataset_name p" "f p" acc] by auto
qed

lemma episode_rows_lookup:
  "plan \<in> set plans \<Longrightarrow>
   \<exists>p\<in>set plans. dataset_name p = dataset_name plan \<and>
     map_of (fold (\<lambda>plan ec. AList.update (dataset_name plan) (f plan) ec) plans acc) (dataset_name plan) = Some (f p)"
proof (induction plans arbitrary: acc rule: rev_induct)
  case Nil
  then show ?case by simp
next
  case (snoc p ps)
  show ?case
  proof (cases "dataset_name p = dataset_name plan")
    case True
    then show ?thesis by (auto simp: update_conv')
  next
    case False
    with snoc.prems have "plan \<in> set ps" by auto
    from snoc.IH[OF this, of acc] False show ?thesis by (auto simp: update_conv')
  qed
qed

lemma episode_rows_keys:
  "fst ` set (fold (\<lambda>plan ec. AList.update (dataset_name plan) (f plan) ec) plans acc)
     = fst ` set acc \<union> dataset_name ` set plans"
  by (induction plans arbitrary: acc) (simp_all add: dom_update Un_commute Un_left_commute)

text \<open>
  C7: in \<^verbatim>\<open>engagement_counts\<close> every row of an episode (every entry whose key is not
  "Total") holds the sentinel "-" in the column Total Messages, and each plan not named
  "Total" has such a row; the row "Total" holds the length of the messages collection and
  of the individuals collection in the raw-count columns, and it is the last row when no
  plan is named "Total".
\<close>

theorem engagement_counts_raw_totals:
  "(\<forall>plan\<in>set plans. dataset_name plan \<noteq> ''Total'' \<longrightarrow>
      (\<exists>row. map_of (engagement_counts au plans messages individuals) (dataset_name plan) = Some row
         \<and> Episode row = dataset_name plan \<and> Total_Messages row = CStr ''-''))
   \<and> (\<forall>kv\<in>set (engagement_counts au plans messages individuals).
         fst kv \<noteq> ''Total'' \<longrightarrow> Episode (snd kv) = fst kv \<and> Total_Messages (snd kv) = CStr ''-'')
   \<and> (\<exists>row. map_of (engagement_counts au plans messages individuals) ''Total'' = Some row
         \<and> Episode row = ''Total''
         \<and> Total_Messages row = CInt (int (length messages))
         \<and> Total_Participants row = CInt (int (length individuals)))
   \<and> (''Total'' \<notin> dataset_name ` set plans \<longrightarrow>
         Episode (snd (last (engagement_counts au plans messages individuals))) = ''Total'')"
proof -
  let ?ec = "engagement_counts au plans messages individuals"
  have A: "\<exists>row. map_of ?ec (dataset_name plan) = Some row
         \<and> Episode row = dataset_name plan \<and> Total_Messages row = CStr ''-''"
    if p: "plan \<in> set plans" and n: "dataset_name plan \<noteq> ''Total''" for plan
  proof -
    from episode_rows_lookup[OF p, of "episode_engagement au messages individuals" "[]"]
    obtain p' where "p' \<in> set plans" "dataset_name p' = dataset_name plan"
      "map_of (episode_rows au plans messages individuals) (dataset_name plan)
         = Some (episode_engagement au messages individuals p')"
      by (auto simp: episode_rows_def)
    with n show ?thesis
      by (simp add: engagement_counts_def update_conv' episode_engagement_def)
  qed
  have B: "Episode (snd kv) = fst kv \<and> Total_Messages (snd kv) = CStr ''-''"
    if kv: "kv \<in> set ?ec" and n: "fst kv \<noteq> ''Total''" for kv
  proof -
    from kv n have "kv \<in> set (episode_rows au plans messages individuals)"
      using update_set_subset[of "''Total''" "total_engagement au plans messages individuals"
          "episode_rows au plans messages individuals"]
      by (auto simp: engagement_counts_def)
    then have "\<exists>plan\<in>set plans. fst kv = dataset_name plan
        \<and> snd kv = episode_engagement au messages individuals plan"
      using episode_rows_entries[of "fst kv" "snd kv" "episode_engagement au messages individuals" plans "[]"]
      by (simp add: episode_rows_def)
    then show ?thesis
      by (auto simp: episode_engagement_def)
  qed
  have C: "\<exists>row. map_of ?ec ''Total'' = Some row
         \<and> Episode row = ''Total''
         \<and> Total_Messages row = CInt (int (length messages))
         \<and> Total_Participants row = CInt (int (length individuals))"
    by (simp add: engagement_counts_def update_conv' total_engagement_def len_def)
  have D: "Episode (snd (last ?ec)) = ''Total''" if "''Total'' \<notin> dataset_name ` set plans"
  proof -
    from that have "''Total'' \<notin> fst ` set (episode_rows au plans messages individuals)"
      using episode_rows_keys[of "episode_engagement au messages individuals" plans "[]"]
      by (simp add: episode_rows_def)
    then show ?thesis
      by (simp add: engagement_counts_def update_last_fresh total_engagement_def)
  qed
  from A B C D show ?thesis by blast
qed

theorem engagement_counts_raw_totals_witness:
  "(\<exists>row. map_of (engagement_counts ex_utils ex_rqa_plans [ex_both, ex_first, ex_withdrawn]
                    [ex_both, ex_first]) ''e1'' = Some row
        \<and> Episode row = ''e1'' \<and> Total_Messages row = CStr ''-'')
   \<and> (\<exists>row. map_of (engagement_counts ex_utils ex_rqa_plans [ex_both, ex_first, ex_withdrawn]
                    [ex_both, ex_first]) ''Total'' = Some row
        \<and> Episode row = ''Total'' \<and> Total_Messages row = CInt 3 \<and> Total_Participants row = CInt 2)
   \<and> Episode (snd (last (engagement_counts ex_utils ex_rqa_plans [ex_both, ex_first, ex_withdrawn]
                    [ex_both, ex_first]))) = ''Total''"
  using engagement_counts_raw_totals[of ex_rqa_plans ex_utils "[ex_both, ex_first, ex_withdrawn]"
      "[ex_both, ex_first]"]
  by (simp add: ex_rqa_plans_def ex_episode_def)

subsection \<open>Repeat participations\<close>

lemma foldE_isl: "x \<in> set xs \<Longrightarrow> (\<And>s. isl (f x s)) \<Longrightarrow> isl (foldE f xs s)"
proof (induction xs arbitrary: s)
  case Nil
  then show ?case by simp
next
  case (Cons y ys)
  show ?case
  proof (cases "f y s")
    case (Inl e)
    then show ?thesis by simp
  next
    case (Inr s')
    with Cons have "x \<noteq> y" by (metis sum.disc(2))
    with Cons Inr show ?thesis by simp
  qed
qed

lemma weeks_participated_le: "weeks_participated plans ind \<le> length plans"
  by (simp add: weeks_participated_def)

lemma count_participation_lookup:
  assumes "count_participation plans ind rp = Inr rp'"
  shows "map_of rp' k =
           map_option (\<lambda>row. row\<lparr> Number_of_Individuals := Number_of_Individuals row
                  + (if participates_times plans k ind then 1 else 0) \<rparr>) (map_of rp k)"
  using assms
  by (cases "map_of rp k")
    (auto simp: count_participation_def consent_is_def participates_times_def Let_def update_conv'
      split: option.splits if_splits bool.splits)

lemma repeat_counts_lookup:
  "foldE (count_participation plans) individuals rp = Inr rp' \<Longrightarrow>
   map_of rp' k =
     map_option (\<lambda>row. row\<lparr> Number_of_Individuals := Number_of_Individuals row
          + int (length (filter (participates_times plans k) individuals)) \<rparr>) (map_of rp k)"
proof (induction individuals arbitrary: rp)
  case Nil
  then show ?case by (simp add: option.map_ident)
next
  case (Cons ind inds)
  from Cons.prems obtain rp1 where 1: "count_participation plans ind rp = Inr rp1"
    and 2: "foldE (count_participation plans) inds rp1 = Inr rp'"
    by (auto split: sum.splits)
  show ?case
    unfolding Cons.IH[OF 2] count_participation_lookup[OF 1]
    by (cases "map_of rp k") auto
qed

lemma repeat_participations_init_lookup:
  "map_of (repeat_participations_init plans) k =
     (if 1 \<le> k \<and> k \<le> length plans
      then Some \<lparr> Episodes_Participated_In = int k, Number_of_Individuals = 0,
                  Pct_of_Individuals = CNone \<rparr>
      else None)"
proof -
  have "map_of (map (\<lambda>i. (i, g i)) xs) k = (if k \<in> set xs then Some (g k) else None)" for g :: "nat \<Rightarrow> rp_row" and xs
    by (induction xs) auto
  then show ?thesis by (auto simp: repeat_participations_init_def)
qed

lemma count_participation_dom:
  "count_participation plans ind rp = Inr rp' \<Longrightarrow> dom (map_of rp') = dom (map_of rp)"
  by (auto simp: count_participation_def Let_def update_conv' split: sum.splits bool.splits if_splits option.splits)

lemma repeat_counts_outcome:
  assumes "\<forall>ind\<in>set individuals. ind CONSENT_WITHDRAWN_KEY \<noteq> None"
    and "{1..length plans} \<subseteq> dom (map_of rp)"
  shows "(list_ex (participates_times plans 0) individuals \<and>
            (\<forall>ind\<in>set individuals. ind ''uid'' \<noteq> None) \<longrightarrow>
            foldE (count_participation plans) individuals rp = Inl AssertionError)
       \<and> (\<not> list_ex (participates_times plans 0) individuals \<longrightarrow>
            (\<exists>rp'. foldE (count_participation plans) individuals rp = Inr rp'))"
  using assms
proof (induction individuals arbitrary: rp)
  case Nil
  then show ?case by simp
next
  case (Cons ind inds)
  show ?case
  proof (cases "participates_times plans 0 ind")
    case True
    then have "ind ''uid'' \<noteq> None \<Longrightarrow> count_participation plans ind rp = Inl AssertionError"
      by (auto simp: count_participation_def consent_is_def participates_times_def)
    with True show ?thesis by auto
  next
    case False
    have "\<exists>rp1. count_participation plans ind rp = Inr rp1"
    proof (cases "ind CONSENT_WITHDRAWN_KEY = Some (Str Codes_FALSE)")
      case t: True
      with False have "weeks_participated plans ind \<noteq> 0" by (simp add: participates_times_def)
      with weeks_participated_le[of plans ind]
      have "weeks_participated plans ind \<in> {1..length plans}" by simp
      with Cons.prems(2) have "weeks_participated plans ind \<in> dom (map_of rp)" by blast
      with t \<open>weeks_participated plans ind \<noteq> 0\<close> show ?thesis
        by (auto simp: count_participation_def consent_is_def Let_def)
    next
      case f: False
      with Cons.prems(1) show ?thesis
        by (auto simp: count_participation_def consent_is_def)
    qed
    then obtain rp1 where 1: "count_participation plans ind rp = Inr rp1" ..
    from count_participation_dom[OF 1] Cons.prems(2) have "{1..length plans} \<subseteq> dom (map_of rp1)" by simp
    with Cons.IH[of rp1] Cons.prems(1) False 1 show ?thesis by simp
  qed
qed

text \<open>
  C6: in the repeat-participation pass, an individual whose consent flag is false and who
  has a value in the raw field of no RQA plan aborts the pass (with the assertion failure
  when every record carries its consent flag and its uid); otherwise the pass returns, and
  bucket \<open>k\<close> counts exactly the individuals whose flag is false and who have the raw
  field of \<open>k\<close> plans, so that each is counted in one bucket only.
\<close>

theorem repeat_participation_buckets:
  "(list_ex (participates_times plans 0) individuals \<longrightarrow>
      isl (repeat_participation_counts plans individuals))
   \<and> (list_ex (participates_times plans 0) individuals
        \<and> list_all (\<lambda>ind. ind CONSENT_WITHDRAWN_KEY \<noteq> None \<and> ind ''uid'' \<noteq> None) individuals \<longrightarrow>
      repeat_participation_counts plans individuals = Inl AssertionError)
   \<and> (\<not> list_ex (participates_times plans 0) individuals
        \<and> list_all (\<lambda>ind. ind CONSENT_WITHDRAWN_KEY \<noteq> None) individuals \<longrightarrow>
      (\<exists>rp. repeat_participation_counts plans individuals = Inr rp))
   \<and> (\<forall>rp k. repeat_participation_counts plans individuals = Inr rp \<longrightarrow>
        map_of rp k =
          (if 1 \<le> k \<and> k \<le> length plans
           then Some \<lparr> Episodes_Participated_In = int k,
                  Number_of_Individuals = int (length (filter (participates_times plans k) individuals)),
                  Pct_of_Individuals = CNone \<rparr>
           else None))"
proof -
  have A: "isl (repeat_participation_counts plans individuals)"
    if "list_ex (participates_times plans 0) individuals"
  proof -
    from that obtain ind where i: "ind \<in> set individuals" "participates_times plans 0 ind"
      by (auto simp: list_ex_iff)
    then have "isl (count_participation plans ind s)" for s
      by (auto simp: count_participation_def consent_is_def participates_times_def split: option.splits)
    from foldE_isl[where f = "count_participation plans", OF i(1) this] show ?thesis by (simp add: repeat_participation_counts_def)
  qed
  have dom0: "{1..length plans} \<subseteq> dom (map_of (repeat_participations_init plans))"
    by (auto simp: repeat_participations_init_lookup)
  have B: "repeat_participation_counts plans individuals = Inl AssertionError"
    if "list_ex (participates_times plans 0) individuals"
      "list_all (\<lambda>ind. ind CONSENT_WITHDRAWN_KEY \<noteq> None \<and> ind ''uid'' \<noteq> None) individuals"
    using repeat_counts_outcome[of individuals plans "repeat_participations_init plans"] that dom0
    by (simp add: repeat_participation_counts_def list_all_iff)
  have C: "\<exists>rp. repeat_participation_counts plans individuals = Inr rp"
    if "\<not> list_ex (participates_times plans 0) individuals"
      "list_all (\<lambda>ind. ind CONSENT_WITHDRAWN_KEY \<noteq> None) individuals"
    using repeat_counts_outcome[of individuals plans "repeat_participations_init plans"] that dom0
    by (simp add: repeat_participation_counts_def list_all_iff)
  have D: "map_of rp k =
          (if 1 \<le> k \<and> k \<le> length plans
           then Some \<lparr> Episodes_Participated_In = int k,
                  Number_of_Individuals = int (length (filter (participates_times plans k) individuals)),
                  Pct_of_Individuals = CNone \<rparr>
           else None)"
    if "repeat_participation_counts plans individuals = Inr rp" for rp k
    using repeat_counts_lookup[OF that[unfolded repeat_participation_counts_def], of k]
    by (simp add: repeat_participations_init_lookup)
  from A B C D show ?thesis by blast
qed

theorem repeat_participation_buckets_witness:
  "(\<exists>rp. repeat_participation_counts ex_rqa_plans [ex_both, ex_first] = Inr rp
      \<and> map_of rp 1 = Some \<lparr> Episodes_Participated_In = 1, Number_of_Individuals = 1,
                                Pct_of_Individuals = CNone \<rparr>
      \<and> map_of rp 2 = Some \<lparr> Episodes_Participated_In = 2, Number_of_Individuals = 1,
                                Pct_of_Individuals = CNone \<rparr>)
   \<and> repeat_participation_counts ex_rqa_plans [ex_both, ex_silent] = Inl AssertionError"
proof -
  have len: "length ex_rqa_plans = 2" by (simp add: ex_rqa_plans_def)
  note t1 = repeat_participation_buckets[of ex_rqa_plans "[ex_both, ex_first]"]
  note t2 = repeat_participation_buckets[of ex_rqa_plans "[ex_both, ex_silent]"]
  have ok: "\<not> list_ex (participates_times ex_rqa_plans 0) [ex_both, ex_first]"
    "list_all (\<lambda>ind. ind CONSENT_WITHDRAWN_KEY \<noteq> None) [ex_both, ex_first]"
    by (simp_all add: participates_times_def)
  with t1 obtain rp where rp: "repeat_participation_counts ex_rqa_plans [ex_both, ex_first] = Inr rp"
    by blast
  with t1 have "map_of rp k =
          (if 1 \<le> k \<and> k \<le> length ex_rqa_plans
           then Some \<lparr> Episodes_Participated_In = int k,
                  Number_of_Individuals =
                    int (length (filter (participates_times ex_rqa_plans k) [ex_both, ex_first])),
                  Pct_of_Individuals = CNone \<rparr>
           else None)" for k
    by blast
  from this[of 1] this[of 2] rp have A: "\<exists>rp. repeat_participation_counts ex_rqa_plans [ex_both, ex_first] = Inr rp
      \<and> map_of rp 1 = Some \<lparr> Episodes_Participated_In = 1, Number_of_Individuals = 1,
                                Pct_of_Individuals = CNone \<rparr>
      \<and> map_of rp 2 = Some \<lparr> Episodes_Participated_In = 2, Number_of_Individuals = 1,
                                Pct_of_Individuals = CNone \<rparr>"
    by (simp add: len participates_times_def)
  have "list_ex (participates_times ex_rqa_plans 0) [ex_both, ex_silent]"
    "list_all (\<lambda>ind. ind CONSENT_WITHDRAWN_KEY \<noteq> None \<and> ind ''uid'' \<noteq> None) [ex_both, ex_silent]"
    by (simp_all add: participates_times_def)
  with t2 have B: "repeat_participation_counts ex_rqa_plans [ex_both, ex_silent] = Inl AssertionError"
    by blast
  from A B show ?thesis by blast
qed

subsection \<open>Demographic distributions\<close>

lemmas ex_defs = ex_demog_plans_def ex_individual_def ex_scheme_def ex_codes_def ex_rqa_plans_def
  ex_episode_def ex_withdrawn_def

lemmas demographic_defs = demographic_distributions_def demographic_counts_def demographic_init_def
  configurations_def init_demographic_def init_code_counts_def is_stop_def count_individual_def
  consent_is_def count_demographic_def single_code_def get_code_with_code_id_def
  export_demographic_def export_configuration_def export_row_def percentage_def enumerate_eq_zip

lemma sum_list_update:
  "map_of d c = Some n \<Longrightarrow>
   sum_list (map snd (AList.update c m d)) = sum_list (map snd d) - n + (m::int)"
  by (induction d) (auto split: if_splits)

lemma foldE_measure:
  assumes "foldE f xs s = Inr s'"
    and "\<And>x s s'. x \<in> set xs \<Longrightarrow> f x s = Inr s' \<Longrightarrow> m s' = m s + g x"
  shows "m s' = m s + (sum_list (map g xs) :: 'b::monoid_add)"
  using assms
proof (induction xs arbitrary: s)
  case Nil
  then show ?case by simp
next
  case (Cons x xs)
  from Cons.prems(1) obtain s1 where 1: "f x s = Inr s1" and 2: "foldE f xs s1 = Inr s'"
    by (cases "f x s") auto
  have "m s1 = m s + g x" using Cons.prems(2)[OF _ 1] by simp
  moreover have "m s' = m s1 + sum_list (map g xs)"
    using Cons.IH[OF 2] Cons.prems(2) by simp
  ultimately show ?case by (simp add: add.assoc)
qed

lemma foldE_invariant:
  assumes "foldE f xs s = Inr s'" and "P s"
    and "\<And>x s s'. x \<in> set xs \<Longrightarrow> P s \<Longrightarrow> f x s = Inr s' \<Longrightarrow> P s'"
  shows "P s'"
  using assms
proof (induction xs arbitrary: s)
  case Nil
  then show ?case by simp
next
  case (Cons x xs)
  from Cons.prems(1) obtain s1 where 1: "f x s = Inr s1" and 2: "foldE f xs s1 = Inr s'"
    by (cases "f x s") auto
  have "P s1" using Cons.prems(3)[OF _ Cons.prems(2) 1] by simp
  show ?case
    by (rule Cons.IH[OF 2 \<open>P s1\<close>]) (use Cons.prems(3) in auto)
qed

lemma count_demographic_total:
  assumes "count_demographic ind cc s = Inr s'"
  shows "key_total k s' = key_total k s + (if analysis_file_key cc = Some k then 1 else 0)"
  using assms
  by (auto simp: count_demographic_def key_total_def Let_def update_conv' sum_list_update
      split: option.splits sum.splits if_splits)

lemma count_demographic_dom:
  assumes "count_demographic ind cc s = Inr s'"
  shows "dom (map_of (fst s')) = dom (map_of (fst s))"
  using assms
  by (auto simp: count_demographic_def Let_def update_conv'
      split: option.splits sum.splits if_splits)

lemma count_individual_total:
  assumes "count_individual plans ind s = Inr s'"
  shows "key_total k s' = key_total k s +
           (if counted ind
            then int (length (filter (\<lambda>cc. analysis_file_key cc = Some k) (configurations plans)))
            else 0)"
proof (cases "counted ind")
  case True
  with assms have "foldE (count_demographic ind) (configurations plans) s = Inr s'"
    by (simp add: count_individual_def counted_def)
  from foldE_measure[OF this, of "key_total k" "\<lambda>cc. if analysis_file_key cc = Some k then 1 else 0"]
    count_demographic_total[of ind]
  have "key_total k s' = key_total k s +
      (\<Sum>cc\<leftarrow>configurations plans. if analysis_file_key cc = Some k then 1 else 0)"
    by blast
  moreover have "(\<Sum>cc\<leftarrow>ccs. if analysis_file_key cc = Some k then 1 else 0)
      = int (length (filter (\<lambda>cc. analysis_file_key cc = Some k) ccs))" for ccs
    by (induction ccs) auto
  ultimately show ?thesis using True by simp
next
  case False
  with assms have "s' = s"
    by (auto simp: count_individual_def counted_def split: sum.splits bool.splits)
  with False show ?thesis by simp
qed

lemma count_individual_dom:
  assumes "count_individual plans ind s = Inr s'"
  shows "dom (map_of (fst s')) = dom (map_of (fst s))"
proof (cases "counted ind")
  case True
  with assms have "foldE (count_demographic ind) (configurations plans) s = Inr s'"
    by (simp add: count_individual_def counted_def)
  from foldE_invariant[OF this, of "\<lambda>t. dom (map_of (fst t)) = dom (map_of (fst s))"]
    count_demographic_dom[of ind]
  show ?thesis by simp
next
  case False
  with assms have "s' = s"
    by (auto simp: count_individual_def counted_def split: sum.splits bool.splits)
  then show ?thesis by simp
qed

lemma demographic_counts_total:
  assumes "foldE (count_individual plans) individuals s = Inr s'"
  shows "key_total k s' = key_total k s +
           int (length (filter counted individuals)) *
           int (length (filter (\<lambda>cc. analysis_file_key cc = Some k) (configurations plans)))"
proof -
  let ?n = "int (length (filter (\<lambda>cc. analysis_file_key cc = Some k) (configurations plans)))"
  from foldE_measure[OF assms, of "key_total k" "\<lambda>ind. if counted ind then ?n else 0"]
    count_individual_total[of plans]
  have "key_total k s' = key_total k s + (\<Sum>ind\<leftarrow>individuals. if counted ind then ?n else 0)"
    by blast
  moreover have "(\<Sum>ind\<leftarrow>inds. if counted ind then ?n else 0)
      = int (length (filter counted inds)) * ?n" for inds
    by (induction inds) (auto simp: algebra_simps)
  ultimately show ?thesis by simp
qed

lemma demographic_counts_dom:
  assumes "foldE (count_individual plans) individuals s = Inr s'"
  shows "dom (map_of (fst s')) = dom (map_of (fst s))"
  using foldE_invariant[OF assms, of "\<lambda>t. dom (map_of (fst t)) = dom (map_of (fst s))"]
    count_individual_dom[of plans]
  by simp

lemma init_code_counts_lookup:
  "map_of (fold (\<lambda>c d. if is_stop c then d else AList.update (code_id c) 0 d) cs d0) cid =
     (if cid \<in> code_id ` {c \<in> set cs. \<not> is_stop c} then Some (0::int) else map_of d0 cid)"
  by (induction cs arbitrary: d0) (auto simp: update_conv')

lemma init_code_counts_zero:
  "snd ` set d0 \<subseteq> {0::int} \<Longrightarrow>
   snd ` set (fold (\<lambda>c d. if is_stop c then d else AList.update (code_id c) 0 d) cs d0) \<subseteq> {0}"
proof (induction cs arbitrary: d0)
  case Nil
  then show ?case by simp
next
  case (Cons c cs)
  have "snd ` set (AList.update (code_id c) (0::int) d0) \<subseteq> {0}"
    using update_set_subset[of "code_id c" "0::int" d0] Cons.prems by fastforce
  with Cons show ?case by simp
qed

lemma sum_list_zeros: "\<forall>x\<in>set xs. x = (0::int) \<Longrightarrow> sum_list xs = 0"
  by (induction xs) auto

lemma init_code_counts_sum: "sum_list (map snd (init_code_counts cs)) = 0"
proof -
  have "snd ` set (init_code_counts cs) \<subseteq> {0}"
    using init_code_counts_zero[of "[]" cs] by (simp add: init_code_counts_def)
  then have "\<forall>x\<in>set (map snd (init_code_counts cs)). x = 0" by auto
  then show ?thesis by (rule sum_list_zeros)
qed

lemma init_demographic_other:
  "\<forall>c\<in>set ccs. analysis_file_key c \<noteq> Some k \<Longrightarrow>
   map_of (fst (fold init_demographic ccs s)) k = map_of (fst s) k \<and>
   map_of (snd (fold init_demographic ccs s)) k = map_of (snd s) k"
  by (induction ccs arbitrary: s) (auto simp: init_demographic_def update_conv' split: option.splits)

lemma analysis_keys_Cons:
  "analysis_keys (c # cs) =
     (case analysis_file_key c of None \<Rightarrow> analysis_keys cs | Some k \<Rightarrow> k # analysis_keys cs)"
  by (simp add: analysis_keys_def map_filter_simps split: option.splits)

lemma analysis_keys_mem:
  "k \<in> set (analysis_keys ccs) \<longleftrightarrow> (\<exists>c\<in>set ccs. analysis_file_key c = Some k)"
  by (induction ccs) (auto simp: analysis_keys_Cons analysis_keys_def map_filter_simps split: option.splits)

lemma demographic_init_lookup:
  assumes "distinct (analysis_keys ccs)" "cc \<in> set ccs" "analysis_file_key cc = Some k"
  shows "map_of (fst (fold init_demographic ccs s)) k = Some (init_code_counts (codes (code_scheme cc)))
       \<and> map_of (snd (fold init_demographic ccs s)) k = Some 0"
  using assms
proof (induction ccs arbitrary: s)
  case Nil
  then show ?case by simp
next
  case (Cons c cs)
  show ?case
  proof (cases "analysis_file_key c = Some k")
    case True
    with Cons.prems(1) have "k \<notin> set (analysis_keys cs)" by (simp add: analysis_keys_Cons)
    then have no: "\<forall>c\<in>set cs. analysis_file_key c \<noteq> Some k" by (simp add: analysis_keys_mem)
    with Cons.prems(2,3) have "cc = c" by auto
    moreover from True have "map_of (fst (init_demographic c s)) k = Some (init_code_counts (codes (code_scheme c)))"
      "map_of (snd (init_demographic c s)) k = Some 0"
      by (simp_all add: init_demographic_def update_conv')
    ultimately show ?thesis
      using init_demographic_other[OF no, of "init_demographic c s"] by simp
  next
    case False
    with Cons.prems have "cc \<in> set cs" by auto
    moreover from Cons.prems(1) have "distinct (analysis_keys cs)"
      by (simp add: analysis_keys_Cons split: option.splits)
    ultimately show ?thesis using Cons.IH Cons.prems(3) by simp
  qed
qed

lemma one_configuration_per_key:
  assumes "distinct (analysis_keys ccs)" "cc \<in> set ccs" "analysis_file_key cc = Some k"
  shows "length (filter (\<lambda>c. analysis_file_key c = Some k) ccs) = 1"
  using assms
proof (induction ccs)
  case Nil
  then show ?case by simp
next
  case (Cons c cs)
  show ?case
  proof (cases "analysis_file_key c = Some k")
    case True
    with Cons.prems(1) have "k \<notin> set (analysis_keys cs)" by (simp add: analysis_keys_Cons)
    then have "\<forall>c\<in>set cs. analysis_file_key c \<noteq> Some k" by (simp add: analysis_keys_mem)
    then have "filter (\<lambda>c. analysis_file_key c = Some k) cs = []" by (simp add: filter_empty_conv)
    with True show ?thesis by simp
  next
    case False
    with Cons.prems have "cc \<in> set cs" by auto
    moreover from Cons.prems(1) have "distinct (analysis_keys cs)"
      by (simp add: analysis_keys_Cons split: option.splits)
    ultimately show ?thesis using Cons.IH Cons.prems(3) False by simp
  qed
qed

lemma counted_iff:
  "ind CONSENT_WITHDRAWN_KEY = Some (Str Codes_TRUE) \<or> ind CONSENT_WITHDRAWN_KEY = Some (Str Codes_FALSE)
   \<Longrightarrow> counted ind \<longleftrightarrow> ind CONSENT_WITHDRAWN_KEY = Some (Str Codes_FALSE)"
  by (auto simp: counted_def consent_is_def)

text \<open>
  C3: when the demographic tally returns, no two configurations share an analysis key and
  every consent flag is "true" or "false", the counts under the key of a configuration
  sum to the number of individuals whose flag is "false". (A run that returns is one in
  which every such individual's field resolved to one code of the scheme that is not
  STOP.)
\<close>

theorem demographic_counts_sum:
  assumes "demographic_counts plans individuals = Inr s"
    and "cc \<in> set (configurations plans)" and "analysis_file_key cc = Some k"
    and "distinct (analysis_keys (configurations plans))"
    and "list_all (\<lambda>ind. ind CONSENT_WITHDRAWN_KEY = Some (Str Codes_TRUE)
                        \<or> ind CONSENT_WITHDRAWN_KEY = Some (Str Codes_FALSE)) individuals"
  shows "\<exists>d. map_of (fst s) k = Some d \<and>
             sum_list (map snd d) =
               int (length (filter (\<lambda>ind. ind CONSENT_WITHDRAWN_KEY = Some (Str Codes_FALSE)) individuals))"
proof -
  let ?init = "demographic_init plans"
  from assms(1) have run: "foldE (count_individual plans) individuals ?init = Inr s"
    by (simp add: demographic_counts_def)
  have init: "map_of (fst ?init) k = Some (init_code_counts (codes (code_scheme cc)))"
    using demographic_init_lookup[OF assms(4,2,3)] by (simp add: demographic_init_def)
  then have zero: "key_total k ?init = 0" by (simp add: key_total_def init_code_counts_sum)
  from demographic_counts_dom[OF run] init obtain d where d: "map_of (fst s) k = Some d"
    by (metis domD domI)
  have "filter counted individuals
      = filter (\<lambda>ind. ind CONSENT_WITHDRAWN_KEY = Some (Str Codes_FALSE)) individuals"
    using assms(5) by (intro filter_cong) (auto simp: list_all_iff counted_iff)
  with demographic_counts_total[OF run, of k] zero one_configuration_per_key[OF assms(4,2,3)] d
  show ?thesis by (simp add: key_total_def)
qed

lemma foldE_outcome:
  assumes "P s"
    and "\<And>x s. x \<in> set xs \<Longrightarrow> P s \<Longrightarrow> \<not> bad x \<Longrightarrow> \<exists>s'. f x s = Inr s' \<and> P s'"
    and "\<And>x s. x \<in> set xs \<Longrightarrow> P s \<Longrightarrow> bad x \<Longrightarrow> f x s = Inl e"
  shows "(list_ex bad xs \<longrightarrow> foldE f xs s = Inl e) \<and>
         (\<not> list_ex bad xs \<longrightarrow> (\<exists>s'. foldE f xs s = Inr s' \<and> P s'))"
  using assms
proof (induction xs arbitrary: s)
  case Nil
  then show ?case by simp
next
  case (Cons x xs)
  show ?case
  proof (cases "bad x")
    case True
    with Cons.prems(3)[of x s] Cons.prems(1) show ?thesis by simp
  next
    case False
    with Cons.prems(2)[of x s] Cons.prems(1) obtain s1 where 1: "f x s = Inr s1" "P s1" by auto
    have "(list_ex bad xs \<longrightarrow> foldE f xs s1 = Inl e) \<and>
         (\<not> list_ex bad xs \<longrightarrow> (\<exists>s'. foldE f xs s1 = Inr s' \<and> P s'))"
      by (rule Cons.IH[OF 1(2)]) (use Cons.prems(2,3) in auto)
    with 1 False show ?thesis by simp
  qed
qed

lemma tallies_readyD:
  assumes "tallies_ready ccs s" "cc \<in> set ccs" "analysis_file_key cc = Some k"
  obtains d t where "map_of (fst s) k = Some d"
    "dom (map_of d) = code_id ` {c \<in> set (codes (code_scheme cc)). \<not> is_stop c}"
    "map_of (snd s) k = Some t"
proof -
  from assms have "(\<exists>d. map_of (fst s) k = Some d \<and>
             dom (map_of d) = code_id ` {c \<in> set (codes (code_scheme cc)). \<not> is_stop c})
        \<and> map_of (snd s) k \<noteq> None"
    unfolding tallies_ready_def by blast
  then show thesis using that by blast
qed

lemma init_code_counts_dom:
  "dom (map_of (init_code_counts cs)) = code_id ` {c \<in> set cs. \<not> is_stop c}"
  using init_code_counts_lookup[of cs "[]"]
  by (auto simp: init_code_counts_def dom_def split: if_splits)

lemma tallies_ready_init:
  assumes "distinct (analysis_keys (configurations plans))"
  shows "tallies_ready (configurations plans) (demographic_init plans)"
  unfolding tallies_ready_def demographic_init_def
  using demographic_init_lookup[OF assms] by (auto simp: init_code_counts_dom)

lemma single_code_in_scheme:
  "single_code cc ind = Inr c \<Longrightarrow> c \<in> set (codes (code_scheme cc))"
  by (auto simp: single_code_def get_code_with_code_id_def find_Some_iff
      split: option.splits field_value.splits)

lemma count_demographic_stop:
  assumes "tallies_ready ccs s" "cc \<in> set ccs" "analysis_file_key cc = Some k"
    and "coding_mode cc = SINGLE" "distinct (map code_id (codes (code_scheme cc)))"
    and "single_code cc ind = Inr c" "is_stop c"
  shows "count_demographic ind cc s = Inl KeyError"
proof -
  from assms(1-3) obtain d t where d: "map_of (fst s) k = Some d"
    "dom (map_of d) = code_id ` {c \<in> set (codes (code_scheme cc)). \<not> is_stop c}"
    by (rule tallies_readyD)
  have c: "c \<in> set (codes (code_scheme cc))" by (rule single_code_in_scheme[OF assms(6)])
  have "code_id c \<notin> dom (map_of d)"
  proof
    assume "code_id c \<in> dom (map_of d)"
    with d(2) obtain c' where "c' \<in> set (codes (code_scheme cc))" "\<not> is_stop c'" "code_id c' = code_id c"
      by auto
    with c assms(5) have "c' = c" by (meson distinct_map inj_onD)
    with \<open>\<not> is_stop c'\<close> assms(7) show False by simp
  qed
  then have "map_of d (code_id c) = None" by auto
  with d(1) assms(3,4,6) show ?thesis by (simp add: count_demographic_def)
qed

lemma count_demographic_ok:
  assumes "tallies_ready ccs s" "cc \<in> set ccs" "analysis_file_key cc = Some k"
    and "coding_mode cc = SINGLE" "single_code cc ind = Inr c" "\<not> is_stop c"
  shows "\<exists>s'. count_demographic ind cc s = Inr s' \<and> tallies_ready ccs s'"
proof -
  from assms(1-3) obtain d t where d: "map_of (fst s) k = Some d"
    "dom (map_of d) = code_id ` {c \<in> set (codes (code_scheme cc)). \<not> is_stop c}"
    and t: "map_of (snd s) k = Some t"
    by (rule tallies_readyD)
  have c: "c \<in> set (codes (code_scheme cc))" by (rule single_code_in_scheme[OF assms(5)])
  with assms(6) d(2) obtain n where n: "map_of d (code_id c) = Some n" by blast
  define dd where "dd = AList.update k (AList.update (code_id c) (n + 1) d) (fst s)"
  define s' where "s' = (if code_type c = NORMAL then (dd, AList.update k (t + 1) (snd s)) else (dd, snd s))"
  have run: "count_demographic ind cc s = Inr s'"
    using d(1) t n assms(3,4,5) by (simp add: count_demographic_def s'_def dd_def Let_def)
  have domeq: "dom (map_of (AList.update (code_id c) (n + 1) d)) = dom (map_of d)"
    using n by (auto simp: update_conv')
  have f: "map_of (fst s') = (map_of (fst s))(k \<mapsto> AList.update (code_id c) (n + 1) d)"
    by (simp add: s'_def dd_def update_conv')
  have g: "map_of (snd s') k' \<noteq> None" if "map_of (snd s) k' = Some t'" for k' t'
    using that by (simp add: s'_def update_conv')
  have "tallies_ready ccs s'"
    unfolding tallies_ready_def
  proof (intro ballI allI impI)
    fix cc' k' assume cc': "cc' \<in> set ccs" "analysis_file_key cc' = Some k'"
    from assms(1) cc' obtain d' t' where d': "map_of (fst s) k' = Some d'"
      "dom (map_of d') = code_id ` {c \<in> set (codes (code_scheme cc')). \<not> is_stop c}"
      and t': "map_of (snd s) k' = Some t'"
      by (rule tallies_readyD)
    show "(\<exists>d. map_of (fst s') k' = Some d \<and>
             dom (map_of d) = code_id ` {c \<in> set (codes (code_scheme cc')). \<not> is_stop c})
        \<and> map_of (snd s') k' \<noteq> None"
    proof (cases "k' = k")
      case True
      with d d' have "d' = d" by simp
      with True d'(2) domeq g[OF t'] show ?thesis by (simp add: f)
    next
      case False
      with d' g[OF t'] show ?thesis by (simp add: f)
    qed
  qed
  with run show ?thesis by blast
qed

lemma count_demographic_skip:
  "analysis_file_key cc = None \<Longrightarrow> count_demographic ind cc s = Inr s"
  by (simp add: count_demographic_def)

lemma stop_assigned_cases:
  assumes "analysis_file_key cc \<noteq> None \<longrightarrow> \<not> isl (single_code cc ind)"
  obtains "analysis_file_key cc = None" "\<not> stop_assigned ind cc"
  | k c where "analysis_file_key cc = Some k" "single_code cc ind = Inr c"
      "stop_assigned ind cc \<longleftrightarrow> is_stop c"
proof (cases "analysis_file_key cc")
  case None
  then show ?thesis using that(1) by (simp add: stop_assigned_def)
next
  case (Some k)
  with assms obtain c where "single_code cc ind = Inr c" by (cases "single_code cc ind") auto
  with Some show ?thesis using that(2) by (simp add: stop_assigned_def)
qed

lemma count_configurations_outcome:
  assumes ready: "tallies_ready ccs s"
    and sub: "set cs \<subseteq> set ccs"
    and wf: "\<forall>cc\<in>set ccs. analysis_file_key cc \<noteq> None \<longrightarrow>
               coding_mode cc = SINGLE \<and> distinct (map code_id (codes (code_scheme cc)))"
    and res: "\<forall>cc\<in>set ccs. analysis_file_key cc \<noteq> None \<longrightarrow> \<not> isl (single_code cc ind)"
  shows "(list_ex (stop_assigned ind) cs \<longrightarrow> foldE (count_demographic ind) cs s = Inl KeyError) \<and>
         (\<not> list_ex (stop_assigned ind) cs \<longrightarrow>
            (\<exists>s'. foldE (count_demographic ind) cs s = Inr s' \<and> tallies_ready ccs s'))"
proof (rule foldE_outcome[of "tallies_ready ccs", OF ready])
  fix cc s assume cc: "cc \<in> set cs" and r: "tallies_ready ccs s" and ok: "\<not> stop_assigned ind cc"
  from cc sub have in_ccs: "cc \<in> set ccs" by blast
  with res have "analysis_file_key cc \<noteq> None \<longrightarrow> \<not> isl (single_code cc ind)" by blast
  then show "\<exists>s'. count_demographic ind cc s = Inr s' \<and> tallies_ready ccs s'"
  proof (cases rule: stop_assigned_cases)
    case 1
    with r show ?thesis by (simp add: count_demographic_skip)
  next
    case (2 k c)
    with ok wf in_ccs count_demographic_ok[OF r in_ccs 2(1) _ 2(2)] show ?thesis by auto
  qed
next
  fix cc s assume cc: "cc \<in> set cs" and r: "tallies_ready ccs s" and bad: "stop_assigned ind cc"
  from cc sub have in_ccs: "cc \<in> set ccs" by blast
  with res have "analysis_file_key cc \<noteq> None \<longrightarrow> \<not> isl (single_code cc ind)" by blast
  then show "count_demographic ind cc s = Inl KeyError"
  proof (cases rule: stop_assigned_cases)
    case 1
    with bad show ?thesis by simp
  next
    case (2 k c)
    with bad wf in_ccs count_demographic_stop[OF r in_ccs 2(1) _ _ 2(2)] show ?thesis by auto
  qed
qed

lemma count_individual_outcome:
  assumes ready: "tallies_ready (configurations plans) s"
    and wf: "well_formed_demog plans"
    and flag: "ind CONSENT_WITHDRAWN_KEY \<noteq> None"
    and res: "counted ind \<longrightarrow> resolves plans ind"
  shows "(assigned_stop plans ind \<longrightarrow> count_individual plans ind s = Inl KeyError) \<and>
         (\<not> assigned_stop plans ind \<longrightarrow>
            (\<exists>s'. count_individual plans ind s = Inr s' \<and> tallies_ready (configurations plans) s'))"
proof (cases "counted ind")
  case True
  then have run: "count_individual plans ind s = foldE (count_demographic ind) (configurations plans) s"
    by (simp add: count_individual_def counted_def)
  from True res have "\<forall>cc\<in>set (configurations plans).
      analysis_file_key cc \<noteq> None \<longrightarrow> \<not> isl (single_code cc ind)"
    by (simp add: resolves_def list_all_iff)
  moreover from wf have "\<forall>cc\<in>set (configurations plans). analysis_file_key cc \<noteq> None \<longrightarrow>
               coding_mode cc = SINGLE \<and> distinct (map code_id (codes (code_scheme cc)))"
    by (simp add: well_formed_demog_def list_all_iff)
  ultimately show ?thesis
    using count_configurations_outcome[OF ready subset_refl, of ind] True
    by (simp add: run assigned_stop_def)
next
  case False
  with flag have "count_individual plans ind s = Inr s"
    by (auto simp: count_individual_def counted_def consent_is_def split: option.splits)
  with False ready show ?thesis by (simp add: assigned_stop_def)
qed

text \<open>
  C9: on a well-formed catalog, with records that carry their consent flag and whose
  demographic fields resolve to codes, the tally fails with KeyError as soon as one
  individual who is not skipped has a field that resolves to a STOP code, and it returns
  when there is no such individual.
\<close>

theorem demographic_stop_missing_key:
  assumes "well_formed_demog plans"
    and "list_all (\<lambda>ind. ind CONSENT_WITHDRAWN_KEY \<noteq> None \<and> (counted ind \<longrightarrow> resolves plans ind))
           individuals"
  shows "(list_ex (assigned_stop plans) individuals \<longrightarrow>
            demographic_counts plans individuals = Inl KeyError
            \<and> demographic_distributions plans individuals = Inl KeyError)
       \<and> (\<not> list_ex (assigned_stop plans) individuals \<longrightarrow>
            (\<exists>s. demographic_counts plans individuals = Inr s))"
proof -
  from assms(1) have "tallies_ready (configurations plans) (demographic_init plans)"
    by (simp add: well_formed_demog_def tallies_ready_init)
  then have "(list_ex (assigned_stop plans) individuals \<longrightarrow>
            foldE (count_individual plans) individuals (demographic_init plans) = Inl KeyError) \<and>
         (\<not> list_ex (assigned_stop plans) individuals \<longrightarrow>
            (\<exists>s'. foldE (count_individual plans) individuals (demographic_init plans) = Inr s'
               \<and> tallies_ready (configurations plans) s'))"
  proof (rule foldE_outcome[of "tallies_ready (configurations plans)"])
    fix ind s assume "ind \<in> set individuals" "tallies_ready (configurations plans) s"
      "\<not> assigned_stop plans ind"
    with assms count_individual_outcome[of plans s ind]
    show "\<exists>s'. count_individual plans ind s = Inr s' \<and> tallies_ready (configurations plans) s'"
      by (simp add: list_all_iff)
  next
    fix ind s assume "ind \<in> set individuals" "tallies_ready (configurations plans) s"
      "assigned_stop plans ind"
    with assms count_individual_outcome[of plans s ind]
    show "count_individual plans ind s = Inl KeyError"
      by (simp add: list_all_iff)
  qed
  then show ?thesis
    by (auto simp: demographic_counts_def demographic_distributions_def)
qed

text \<open>
  The tallies keep their shape while individuals are counted, so that the export finds
  every count and denominator it reads, and writes the expected rows unless a percentage
  has no value.
\<close>

lemma mapE_outcome:
  assumes "\<And>x. x \<in> set xs \<Longrightarrow> \<not> bad x \<Longrightarrow> f x = Inr (g x)"
    and "\<And>x. x \<in> set xs \<Longrightarrow> bad x \<Longrightarrow> f x = Inl e"
  shows "(list_ex bad xs \<longrightarrow> mapE f xs = Inl e) \<and>
         (\<not> list_ex bad xs \<longrightarrow> mapE f xs = Inr (map g xs))"
  using assms
proof (induction xs)
  case Nil
  then show ?case by simp
next
  case (Cons x xs)
  have IH: "(list_ex bad xs \<longrightarrow> mapE f xs = Inl e) \<and>
         (\<not> list_ex bad xs \<longrightarrow> mapE f xs = Inr (map g xs))"
    by (rule Cons.IH) (use Cons.prems in auto)
  show ?case
  proof (cases "bad x")
    case True
    with Cons.prems(2)[of x] show ?thesis by simp
  next
    case False
    with Cons.prems(1)[of x] IH show ?thesis by simp
  qed
qed

lemma concat_map_unless:
  "concat (map (\<lambda>x. if P x then [] else [h x]) xs) = map h (filter (\<lambda>x. \<not> P x) xs)"
  by (induction xs) auto

lemma count_demographic_ready:
  assumes "count_demographic ind cc s = Inr s'" "tallies_ready ccs s"
  shows "tallies_ready ccs s'"
proof (cases "analysis_file_key cc")
  case None
  with assms show ?thesis by (simp add: count_demographic_def)
next
  case (Some k)
  from assms(1) Some obtain code where code: "single_code cc ind = Inr code"
    by (cases "single_code cc ind") (auto simp: count_demographic_def split: if_splits)
  from assms(1) Some code obtain d0 where d0: "map_of (fst s) k = Some d0"
    by (cases "map_of (fst s) k") (auto simp: count_demographic_def split: if_splits)
  from assms(1) Some code d0 obtain n0 where n0: "map_of d0 (code_id code) = Some n0"
    by (cases "map_of d0 (code_id code)") (auto simp: count_demographic_def split: if_splits)
  from assms(1) Some code d0 n0
  have "fst s' = AList.update k (AList.update (code_id code) (n0 + 1) d0) (fst s)"
    "snd s' = snd s \<or> (\<exists>t. snd s' = AList.update k t (snd s))"
    by (auto simp: count_demographic_def Let_def split: if_splits option.splits)
  with d0 n0 have "\<exists>cid d n. map_of (fst s) k = Some d
      \<and> map_of d cid = Some n
      \<and> fst s' = AList.update k (AList.update cid (n + 1) d) (fst s)
      \<and> (snd s' = snd s \<or> (\<exists>t. snd s' = AList.update k t (snd s)))"
    by blast
  then obtain cid d n where d: "map_of (fst s) k = Some d"
    and n: "map_of d cid = Some n"
    and f: "fst s' = AList.update k (AList.update cid (n + 1) d) (fst s)"
    and g: "snd s' = snd s \<or> (\<exists>t. snd s' = AList.update k t (snd s))"
    by blast
  have domeq: "dom (map_of (AList.update cid (n + 1) d)) = dom (map_of d)"
    using n by (auto simp: update_conv')
  have f': "map_of (fst s') = (map_of (fst s))(k \<mapsto> AList.update cid (n + 1) d)"
    by (simp add: f update_conv')
  have g': "map_of (snd s') k' \<noteq> None" if "map_of (snd s) k' = Some t'" for k' t'
    using that g by (auto simp: update_conv')
  show ?thesis
    unfolding tallies_ready_def
  proof (intro ballI allI impI)
    fix cc' k' assume cc': "cc' \<in> set ccs" "analysis_file_key cc' = Some k'"
    from assms(2) cc' obtain d' t' where d': "map_of (fst s) k' = Some d'"
      "dom (map_of d') = code_id ` {c \<in> set (codes (code_scheme cc')). \<not> is_stop c}"
      and t': "map_of (snd s) k' = Some t'"
      by (rule tallies_readyD)
    show "(\<exists>d. map_of (fst s') k' = Some d \<and>
             dom (map_of d) = code_id ` {c \<in> set (codes (code_scheme cc')). \<not> is_stop c})
        \<and> map_of (snd s') k' \<noteq> None"
    proof (cases "k' = k")
      case True
      with d d' have "d' = d" by simp
      with True d'(2) domeq g'[OF t'] show ?thesis by (simp add: f')
    next
      case False
      with d' g'[OF t'] show ?thesis by (simp add: f')
    qed
  qed
qed

lemma demographic_counts_ready:
  assumes "distinct (analysis_keys (configurations plans))"
    and "demographic_counts plans individuals = Inr s"
  shows "tallies_ready (configurations plans) s"
proof -
  let ?P = "tallies_ready (configurations plans)"
  have ind: "?P t'" if "count_individual plans ind t = Inr t'" "?P t" for ind t t'
  proof (cases "counted ind")
    case True
    with that(1) have run: "foldE (count_demographic ind) (configurations plans) t = Inr t'"
      by (simp add: count_individual_def counted_def)
    show ?thesis
      by (rule foldE_invariant[OF run, of ?P]) (use that(2) count_demographic_ready in auto)
  next
    case False
    with that(1) have "t' = t"
      by (auto simp: count_individual_def counted_def split: sum.splits bool.splits)
    with that(2) show ?thesis by simp
  qed
  from assms(2) have run: "foldE (count_individual plans) individuals (demographic_init plans) = Inr s"
    by (simp add: demographic_counts_def)
  show ?thesis
    by (rule foldE_invariant[OF run, of ?P]) (use tallies_ready_init[OF assms(1)] ind in auto)
qed

lemma export_row_outcome:
  assumes "tallies_ready ccs s" "cc \<in> set ccs" "analysis_file_key cc = Some k"
    and "snd ic \<in> set (codes (code_scheme cc))"
  shows "export_row s k ic =
           (if is_stop (snd ic) then Inr []
            else if code_type (snd ic) = NORMAL \<and> denominator_of s k = 0 then Inl ZeroDivisionError
            else Inr [expected_row s k ic])"
proof (cases "is_stop (snd ic)")
  case True
  then show ?thesis by (simp add: export_row_def)
next
  case False
  from assms(1-3) obtain d t where d: "map_of (fst s) k = Some d"
    "dom (map_of d) = code_id ` {c \<in> set (codes (code_scheme cc)). \<not> is_stop c}"
    and t: "map_of (snd s) k = Some t"
    by (rule tallies_readyD)
  from False assms(4) d(2) obtain p where p: "map_of d (code_id (snd ic)) = Some p" by blast
  from False d(1) t p show ?thesis
    by (simp add: export_row_def expected_row_def tally_of_def denominator_of_def percentage_def)
qed

lemma export_configuration_outcome:
  assumes "tallies_ready ccs s" "cc \<in> set ccs"
  shows "(undefined_percentage s cc \<longrightarrow> export_configuration s cc = Inl ZeroDivisionError) \<and>
         (\<not> undefined_percentage s cc \<longrightarrow> export_configuration s cc = Inr (expected_rows_of s cc))"
proof (cases "analysis_file_key cc")
  case None
  then show ?thesis
    by (simp add: export_configuration_def undefined_percentage_def expected_rows_of_def)
next
  case (Some k)
  let ?xs = "List.enumerate 0 (codes (code_scheme cc))"
  let ?bad = "\<lambda>ic. \<not> is_stop (snd ic) \<and> code_type (snd ic) = NORMAL \<and> denominator_of s k = 0"
  let ?g = "\<lambda>ic. if is_stop (snd ic) then [] else [expected_row s k ic]"
  have mem: "snd ic \<in> set (codes (code_scheme cc))" if "ic \<in> set ?xs" for ic
  proof -
    obtain i c where ic: "ic = (i, c)" by (cases ic)
    with that have "(i, c) \<in> set (zip [0..<length (codes (code_scheme cc))] (codes (code_scheme cc)))"
      by (simp add: enumerate_eq_zip)
    then show ?thesis unfolding ic by (auto dest: set_zip_rightD)
  qed
  have out: "(list_ex ?bad ?xs \<longrightarrow> mapE (export_row s k) ?xs = Inl ZeroDivisionError) \<and>
         (\<not> list_ex ?bad ?xs \<longrightarrow> mapE (export_row s k) ?xs = Inr (map ?g ?xs))"
    by (rule mapE_outcome)
      (use export_row_outcome[OF assms Some mem] in \<open>auto split: if_splits\<close>)
  have "set (map snd ?xs) = set (codes (code_scheme cc))"
    by (simp only: map_snd_enumerate)
  then have "snd ` set ?xs = set (codes (code_scheme cc))"
    by (simp only: set_map)
  then have bad: "list_ex ?bad ?xs \<longleftrightarrow> undefined_percentage s cc"
    by (auto simp: undefined_percentage_def Some list_ex_iff) force+
  show ?thesis
    using out unfolding bad
    by (auto simp: export_configuration_def Some expected_rows_of_def concat_map_unless)
qed

lemma export_demographic_outcome:
  assumes "tallies_ready (configurations plans) s"
  shows "(list_ex (undefined_percentage s) (configurations plans) \<longrightarrow>
            export_demographic plans s = Inl ZeroDivisionError) \<and>
         (\<not> list_ex (undefined_percentage s) (configurations plans) \<longrightarrow>
            export_demographic plans s = Inr (expected_rows plans s))"
proof -
  have "(list_ex (undefined_percentage s) (configurations plans) \<longrightarrow>
          mapE (export_configuration s) (configurations plans) = Inl ZeroDivisionError) \<and>
        (\<not> list_ex (undefined_percentage s) (configurations plans) \<longrightarrow>
          mapE (export_configuration s) (configurations plans)
            = Inr (map (expected_rows_of s) (configurations plans)))"
    by (rule mapE_outcome) (use export_configuration_outcome[OF assms] in auto)
  then show ?thesis by (auto simp: export_demographic_def expected_rows_def)
qed

lemma expected_rows_of_codes:
  assumes "analysis_file_key cc = Some k"
  shows "map Demographic_Code (expected_rows_of s cc)
       = map string_value (filter (\<lambda>c. \<not> is_stop c) (codes (code_scheme cc)))"
proof -
  have "map snd (filter (\<lambda>ic. \<not> is_stop (snd ic)) xs) = filter (\<lambda>c. \<not> is_stop c) (map snd xs)"
    for xs :: "(nat \<times> Code) list"
    by (induction xs) auto
  from this[of "List.enumerate 0 (codes (code_scheme cc))"] assms show ?thesis
    by (simp add: expected_rows_of_def expected_row_def comp_def flip: map_map[of string_value snd, unfolded comp_def])
qed

text \<open>
  C4: the tally of a keyed configuration starts with the count 0 for every code of its
  scheme that is not STOP, hence for every normal code when no normal code is STOP, and
  with no other entry. When the counting of the individuals returns the tallies \<open>s\<close>, the
  pass returns exactly the expected rows of \<open>s\<close>: for the keyed configurations in order,
  one row per code that is not STOP, holding the tally of the code, and its percentage of
  the denominator for a normal code, the empty string for any other; unless a keyed
  configuration with a normal code has the denominator 0, when the pass raises
  ZeroDivisionError.
\<close>

theorem demographic_prepopulated_and_exported:
  assumes "distinct (analysis_keys (configurations plans))"
    and "cc \<in> set (configurations plans)" and "analysis_file_key cc = Some k"
  shows "(\<exists>d. map_of (fst (demographic_init plans)) k = Some d
           \<and> (\<forall>c\<in>set (codes (code_scheme cc)).
                 \<not> is_stop c \<longrightarrow> map_of d (code_id c) = Some 0)
           \<and> (list_all (\<lambda>c. code_type c = NORMAL \<longrightarrow> \<not> is_stop c) (codes (code_scheme cc)) \<longrightarrow>
                (\<forall>c\<in>set (codes (code_scheme cc)).
                   code_type c = NORMAL \<longrightarrow> map_of d (code_id c) = Some 0))
           \<and> (\<forall>cid n. map_of d cid = Some n \<longrightarrow>
                 n = 0 \<and> (\<exists>c\<in>set (codes (code_scheme cc)). \<not> is_stop c \<and> code_id c = cid)))
       \<and> (\<forall>s. demographic_counts plans individuals = Inr s \<longrightarrow>
             (list_ex (undefined_percentage s) (configurations plans) \<longrightarrow>
                demographic_distributions plans individuals = Inl ZeroDivisionError)
           \<and> (\<not> list_ex (undefined_percentage s) (configurations plans) \<longrightarrow>
                demographic_distributions plans individuals = Inr (expected_rows plans s))
           \<and> map Demographic_Code (expected_rows_of s cc)
                = map string_value (filter (\<lambda>c. \<not> is_stop c) (codes (code_scheme cc))))"
proof -
  have 1: "map_of (fst (demographic_init plans)) k = Some (init_code_counts (codes (code_scheme cc)))"
    using demographic_init_lookup[OF assms] by (simp add: demographic_init_def)
  have 2: "map_of (init_code_counts cs) cid =
      (if cid \<in> code_id ` {c \<in> set cs. \<not> is_stop c} then Some 0 else None)" for cs cid
    using init_code_counts_lookup[of cs "[]" cid] by (simp add: init_code_counts_def)
  have A: "\<exists>d. map_of (fst (demographic_init plans)) k = Some d
           \<and> (\<forall>c\<in>set (codes (code_scheme cc)).
                 \<not> is_stop c \<longrightarrow> map_of d (code_id c) = Some 0)
           \<and> (list_all (\<lambda>c. code_type c = NORMAL \<longrightarrow> \<not> is_stop c) (codes (code_scheme cc)) \<longrightarrow>
                (\<forall>c\<in>set (codes (code_scheme cc)).
                   code_type c = NORMAL \<longrightarrow> map_of d (code_id c) = Some 0))
           \<and> (\<forall>cid n. map_of d cid = Some n \<longrightarrow>
                 n = 0 \<and> (\<exists>c\<in>set (codes (code_scheme cc)). \<not> is_stop c \<and> code_id c = cid))"
    unfolding 1 by (auto simp: 2 list_all_iff split: if_splits)
  have B: "(list_ex (undefined_percentage s) (configurations plans) \<longrightarrow>
                demographic_distributions plans individuals = Inl ZeroDivisionError)
           \<and> (\<not> list_ex (undefined_percentage s) (configurations plans) \<longrightarrow>
                demographic_distributions plans individuals = Inr (expected_rows plans s))
           \<and> map Demographic_Code (expected_rows_of s cc)
                = map string_value (filter (\<lambda>c. \<not> is_stop c) (codes (code_scheme cc)))"
    if "demographic_counts plans individuals = Inr s" for s
    using export_demographic_outcome[OF demographic_counts_ready[OF assms(1) that]] that
      expected_rows_of_codes[OF assms(3), of s]
    by (simp add: demographic_distributions_def)
  from A B show ?thesis by blast
qed

lemma demographic_mode_aborts:
  assumes "cc \<in> set (configurations plans)" "analysis_file_key cc = Some k"
    "coding_mode cc \<noteq> SINGLE"
    and "ind \<in> set individuals" "ind CONSENT_WITHDRAWN_KEY \<noteq> Some (Str Codes_TRUE)"
  shows "isl (demographic_counts plans individuals)"
proof -
  have "isl (count_demographic ind cc s)" for s
    using assms(2,3) by (simp add: count_demographic_def)
  then have "isl (foldE (count_demographic ind) (configurations plans) s)" for s
    using foldE_isl[where f = "count_demographic ind", OF assms(1)] by blast
  then have "isl (count_individual plans ind s)" for s
    using assms(5)
    by (auto simp: count_individual_def consent_is_def split: option.splits bool.splits)
  then show ?thesis
    unfolding demographic_counts_def
    using foldE_isl[where f = "count_individual plans", OF assms(4)] by blast
qed

lemma init_themes_mode:
  assumes "cc \<in> set (coding_configurations plan)" "coding_mode cc \<noteq> MULTIPLE"
  shows "init_themes survey_plans plan = Inl AssertionError"
proof -
  have "(list_ex (\<lambda>cc. coding_mode cc \<noteq> MULTIPLE) (coding_configurations plan) \<longrightarrow>
          foldE (init_configuration_themes survey_plans) (coding_configurations plan) []
            = Inl AssertionError) \<and>
        (\<not> list_ex (\<lambda>cc. coding_mode cc \<noteq> MULTIPLE) (coding_configurations plan) \<longrightarrow>
          (\<exists>s'. foldE (init_configuration_themes survey_plans) (coding_configurations plan) []
            = Inr s' \<and> True))"
    by (rule foldE_outcome[of "\<lambda>s. True"]) (simp_all add: init_configuration_themes_def)
  with assms show ?thesis by (auto simp: init_themes_def list_ex_iff)
qed

text \<open>
  C5, as amended: a configuration of an RQA plan whose coding mode is not MULTIPLE makes
  the episode fail its assertion, so the theme pass aborts; in the demographic pass a
  configuration with an analysis key whose coding mode is not SINGLE aborts the pass when
  at least one individual has not withdrawn consent.
\<close>

theorem unsupported_coding_mode_aborts:
  "(plan \<in> set rqa_plans \<and> cc \<in> set (coding_configurations plan) \<and> coding_mode cc \<noteq> MULTIPLE \<longrightarrow>
      episode_themes survey_plans plan individuals = Inl AssertionError
      \<and> isl (theme_distributions survey_plans rqa_plans individuals))
   \<and> (dc \<in> set (configurations demog_plans) \<and> analysis_file_key dc \<noteq> None
        \<and> coding_mode dc \<noteq> SINGLE
        \<and> list_ex (\<lambda>ind. ind CONSENT_WITHDRAWN_KEY \<noteq> Some (Str Codes_TRUE)) individuals \<longrightarrow>
      isl (demographic_counts demog_plans individuals)
      \<and> isl (demographic_distributions demog_plans individuals))"
proof -
  have A: "episode_themes survey_plans plan individuals = Inl AssertionError"
    if "cc \<in> set (coding_configurations plan)" "coding_mode cc \<noteq> MULTIPLE"
    using init_themes_mode[OF that] by (simp add: episode_themes_def episode_counts_def)
  have B: "isl (theme_distributions survey_plans rqa_plans individuals)"
    if "plan \<in> set rqa_plans" "cc \<in> set (coding_configurations plan)" "coding_mode cc \<noteq> MULTIPLE"
  proof -
    have "isl (add_episode survey_plans individuals plan eps)" for eps
      using A[OF that(2,3)] by (simp add: add_episode_def)
    then show ?thesis
      unfolding theme_distributions_def
      using foldE_isl[where f = "add_episode survey_plans individuals", OF that(1)] by blast
  qed
  have C: "isl (demographic_counts demog_plans individuals)
      \<and> isl (demographic_distributions demog_plans individuals)"
    if "dc \<in> set (configurations demog_plans)" "analysis_file_key dc \<noteq> None"
      "coding_mode dc \<noteq> SINGLE"
      "list_ex (\<lambda>ind. ind CONSENT_WITHDRAWN_KEY \<noteq> Some (Str Codes_TRUE)) individuals"
  proof -
    from that(2) obtain k where k: "analysis_file_key dc = Some k" by blast
    from that(4) obtain ind where "ind \<in> set individuals"
      "ind CONSENT_WITHDRAWN_KEY \<noteq> Some (Str Codes_TRUE)"
      by (auto simp: list_ex_iff)
    from demographic_mode_aborts[OF that(1) k that(3) this]
    show ?thesis
      by (cases "demographic_counts demog_plans individuals")
        (simp_all add: demographic_distributions_def)
  qed
  from A B C show ?thesis by blast
qed

theorem unsupported_coding_mode_aborts_witness:
  "episode_themes [] (hd ex_demog_plans) [] = Inl AssertionError
   \<and> isl (theme_distributions [] ex_demog_plans [])
   \<and> isl (demographic_counts ex_rqa_plans [ex_both])
   \<and> isl (demographic_distributions ex_rqa_plans [ex_both])"
  using unsupported_coding_mode_aborts[of "hd ex_demog_plans" ex_demog_plans
      "hd (coding_configurations (hd ex_demog_plans))" "[]" "[ex_both]"
      "hd (coding_configurations (hd ex_rqa_plans))" ex_rqa_plans]
    unsupported_coding_mode_aborts[of "hd ex_demog_plans" ex_demog_plans
      "hd (coding_configurations (hd ex_demog_plans))" "[]" "[]"
      "hd (coding_configurations (hd ex_rqa_plans))" ex_rqa_plans]
  by (simp add: ex_demog_plans_def ex_rqa_plans_def ex_episode_def configurations_def)

text \<open>
  C5 as stated fails: the only configuration of the demographic catalog below is keyed and
  multi-select; the pass checks the coding mode once per individual who has not withdrawn
  consent, so with a single individual who has withdrawn, or with none, it never checks it
  and returns the row of the configuration.
\<close>

theorem multiple_mode_unchecked_without_participants:
  "list_all (\<lambda>cc. coding_mode cc = MULTIPLE \<and> analysis_file_key cc = Some ''age'')
     (configurations ex_multi_demog_plans)
   \<and> demographic_distributions ex_multi_demog_plans [ex_individual Codes_TRUE ''c-stop'' []]
       = Inr [\<lparr> Demographic = ''age'', Demographic_Code = ''NC'', Participants_with_Opt_Ins = 0,
                  Percent = CStr [] \<rparr>]
   \<and> demographic_distributions ex_multi_demog_plans []
       = Inr [\<lparr> Demographic = ''age'', Demographic_Code = ''NC'', Participants_with_Opt_Ins = 0,
                  Percent = CStr [] \<rparr>]"
  by (simp add: demographic_defs ex_multi_demog_plans_def ex_control_scheme_def ex_individual_def)

text \<open>
  The guard of the theme pass: a percentage slot gets the marker "-" when the count of
  the denominator row is 0, and the rounded ratio otherwise.
\<close>

lemma set_code_percentage_cell:
  assumes "\<not> is_stop code" "map_of sc (survey_key k code) = Some (CInt c)"
    and "map_of (the_total sc total_counts) (survey_key k code) = Some (CInt t)"
  shows "set_code_percentage total_counts k code sc =
           Inr (AList.update (survey_key k code @ '' %'')
                  (if t = 0 then CStr ''-'' else CRound c t) sc)"
  using assms
  by (simp add: set_code_percentage_def equals_zero_def ratio_def percentage_def)

lemma set_total_percentage_cell:
  assumes "map_of sc TOTAL_PARTICIPANTS = Some (CInt c)"
    and "map_of (the_total sc total_counts) TOTAL_PARTICIPANTS = Some (CInt t)"
  shows "set_total_percentage total_counts sc =
           Inr (AList.update ''Total Participants %''
                  (if t = 0 then CStr ''-'' else CRound c t) sc)"
  using assms
  by (simp add: set_total_percentage_def equals_zero_def ratio_def percentage_def)

text \<open>
  C1: the repeat-participation pass and the demographic pass divide without testing the
  denominator: with no individual whose flag is "false", and with no individual under a
  normal code, they raise ZeroDivisionError where the claim asks for a marker.
\<close>

theorem zero_denominator_aborts:
  "repeat_participations ex_rqa_plans [ex_withdrawn] = Inl ZeroDivisionError
   \<and> demographic_distributions ex_demog_plans [ex_individual Codes_FALSE ''c-nc'' []]
       = Inl ZeroDivisionError"
  by (simp add: demographic_defs ex_defs repeat_participations_def repeat_participation_counts_def
      count_participation_def repeat_participations_init_def set_rp_percentage_def)

lemma ex_demographic_counts:
  "demographic_counts ex_demog_plans
     [ex_individual Codes_FALSE ''c-yes'' [], ex_individual Codes_FALSE ''c-nc'' [],
      ex_individual Codes_TRUE ''c-stop'' []]
   = Inr ([(''gender'', [(''c-yes'', 1), (''c-nc'', 1)])], [(''gender'', 1)])"
  by (simp add: demographic_defs ex_defs)

theorem demographic_counts_sum_witness:
  "demographic_counts ex_demog_plans
     [ex_individual Codes_FALSE ''c-yes'' [], ex_individual Codes_FALSE ''c-nc'' [],
      ex_individual Codes_TRUE ''c-stop'' []]
     = Inr ([(''gender'', [(''c-yes'', 1), (''c-nc'', 1)])], [(''gender'', 1)])
   \<and> (\<exists>d. map_of [(''gender'', [(''c-yes'', 1), (''c-nc'', 1)])] ''gender'' = Some d
          \<and> sum_list (map snd d) = (2::int))"
  using demographic_counts_sum[OF ex_demographic_counts,
      of "hd (coding_configurations (hd ex_demog_plans))" "''gender''"]
    ex_demographic_counts
  by (simp add: ex_demog_plans_def configurations_def analysis_keys_def map_filter_simps
      ex_individual_def)

theorem demographic_stop_missing_key_witness:
  "demographic_counts ex_demog_plans
     [ex_individual Codes_FALSE ''c-yes'' [], ex_individual Codes_FALSE ''c-stop'' []] = Inl KeyError
   \<and> (\<exists>s. demographic_counts ex_demog_plans
            [ex_individual Codes_FALSE ''c-yes'' [], ex_individual Codes_TRUE ''c-stop'' []] = Inr s)"
  using demographic_stop_missing_key[of ex_demog_plans
      "[ex_individual Codes_FALSE ''c-yes'' [], ex_individual Codes_FALSE ''c-stop'' []]"]
    demographic_stop_missing_key[of ex_demog_plans
      "[ex_individual Codes_FALSE ''c-yes'' [], ex_individual Codes_TRUE ''c-stop'' []]"]
  by (simp add: well_formed_demog_def resolves_def assigned_stop_def stop_assigned_def counted_def
      consent_is_def single_code_def get_code_with_code_id_def is_stop_def
      configurations_def analysis_keys_def map_filter_simps ex_defs)

lemma ex_demographic_tally:
  "demographic_counts ex_demog_plans [ex_individual Codes_FALSE ''c-yes'' []]
     = Inr ([(''gender'', [(''c-yes'', 1), (''c-nc'', 0)])], [(''gender'', 1)])"
  "demographic_counts ex_demog_plans [ex_individual Codes_FALSE ''c-nc'' []]
     = Inr ([(''gender'', [(''c-yes'', 0), (''c-nc'', 1)])], [(''gender'', 0)])"
  by (simp_all add: demographic_defs ex_defs)

theorem demographic_prepopulated_and_exported_witness:
  "(\<exists>d. map_of (fst (demographic_init ex_demog_plans)) ''gender'' = Some d
       \<and> map_of d ''c-yes'' = Some 0 \<and> map_of d ''c-nc'' = Some 0 \<and> map_of d ''c-stop'' = None)
   \<and> demographic_distributions ex_demog_plans [ex_individual Codes_FALSE ''c-yes'' []]
       = Inr [\<lparr> Demographic = ''gender'', Demographic_Code = ''yes'', Participants_with_Opt_Ins = 1,
                  Percent = CRound 1 1 \<rparr>,
              \<lparr> Demographic = [], Demographic_Code = ''NC'', Participants_with_Opt_Ins = 0,
                  Percent = CStr [] \<rparr>]
   \<and> demographic_distributions ex_demog_plans [ex_individual Codes_FALSE ''c-nc'' []]
       = Inl ZeroDivisionError"
proof -
  let ?cc = "hd (coding_configurations (hd ex_demog_plans))"
  have h: "distinct (analysis_keys (configurations ex_demog_plans))"
    "?cc \<in> set (configurations ex_demog_plans)"
    "analysis_file_key ?cc = Some ''gender''"
    by (simp_all add: ex_demog_plans_def configurations_def analysis_keys_def map_filter_simps)
  note t1 = demographic_prepopulated_and_exported[OF h, of "[ex_individual Codes_FALSE ''c-yes'' []]"]
  note t2 = demographic_prepopulated_and_exported[OF h, of "[ex_individual Codes_FALSE ''c-nc'' []]"]
  from t1 obtain d where d: "map_of (fst (demographic_init ex_demog_plans)) ''gender'' = Some d"
    "\<forall>c\<in>set (codes (code_scheme ?cc)). \<not> is_stop c \<longrightarrow> map_of d (code_id c) = Some 0"
    "\<forall>cid n. map_of d cid = Some n \<longrightarrow> n = 0 \<and>
        (\<exists>c\<in>set (codes (code_scheme ?cc)). \<not> is_stop c \<and> code_id c = cid)"
    by blast
  from d(2) have "map_of d ''c-yes'' = Some 0" "map_of d ''c-nc'' = Some 0"
    by (simp_all add: ex_defs is_stop_def)
  moreover from d(3)[rule_format, of "''c-stop''"] have "map_of d ''c-stop'' = None"
    by (cases "map_of d ''c-stop''") (auto simp: ex_defs is_stop_def)
  ultimately have A: "\<exists>d. map_of (fst (demographic_init ex_demog_plans)) ''gender'' = Some d
       \<and> map_of d ''c-yes'' = Some 0 \<and> map_of d ''c-nc'' = Some 0 \<and> map_of d ''c-stop'' = None"
    using d(1) by blast
  let ?s1 = "([(''gender'', [(''c-yes'', 1), (''c-nc'', 0)])], [(''gender'', 1)]) :: demographic_state"
  let ?s2 = "([(''gender'', [(''c-yes'', 0), (''c-nc'', 1)])], [(''gender'', 0)]) :: demographic_state"
  have "\<not> list_ex (undefined_percentage ?s1) (configurations ex_demog_plans)"
    by (simp add: undefined_percentage_def denominator_of_def ex_demog_plans_def configurations_def)
  with t1 ex_demographic_tally(1)
  have "demographic_distributions ex_demog_plans [ex_individual Codes_FALSE ''c-yes'' []]
      = Inr (expected_rows ex_demog_plans ?s1)"
    by blast
  then have B: "demographic_distributions ex_demog_plans [ex_individual Codes_FALSE ''c-yes'' []]
       = Inr [\<lparr> Demographic = ''gender'', Demographic_Code = ''yes'', Participants_with_Opt_Ins = 1,
                  Percent = CRound 1 1 \<rparr>,
              \<lparr> Demographic = [], Demographic_Code = ''NC'', Participants_with_Opt_Ins = 0,
                  Percent = CStr [] \<rparr>]"
    by (simp add: expected_rows_def expected_rows_of_def expected_row_def tally_of_def
        denominator_of_def is_stop_def enumerate_eq_zip configurations_def ex_defs)
  have "list_ex (undefined_percentage ?s2) (configurations ex_demog_plans)"
    by (simp add: undefined_percentage_def denominator_of_def is_stop_def configurations_def ex_defs)
  with t2 ex_demographic_tally(2)
  have C: "demographic_distributions ex_demog_plans [ex_individual Codes_FALSE ''c-nc'' []]
      = Inl ZeroDivisionError"
    by blast
  from A B C show ?thesis by blast
qed

subsection \<open>Theme distributions\<close>

lemma survey_key_not_total [simp]:
  "survey_key k code \<noteq> TOTAL_PARTICIPANTS" "TOTAL_PARTICIPANTS \<noteq> survey_key k code"
proof -
  have "CHR '':'' \<in> set (survey_key k code)" by (simp add: survey_key_def)
  moreover have "CHR '':'' \<notin> set TOTAL_PARTICIPANTS" by simp
  ultimately show "survey_key k code \<noteq> TOTAL_PARTICIPANTS" by metis
  then show "TOTAL_PARTICIPANTS \<noteq> survey_key k code" by metis
qed

lemma percent_key_not_total [simp]:
  "k @ '' %'' \<noteq> TOTAL_PARTICIPANTS" "TOTAL_PARTICIPANTS \<noteq> k @ '' %''"
proof -
  have "last (k @ '' %'') \<noteq> last TOTAL_PARTICIPANTS" by simp
  then show "k @ '' %'' \<noteq> TOTAL_PARTICIPANTS" by metis
  then show "TOTAL_PARTICIPANTS \<noteq> k @ '' %''" by metis
qed

lemma make_survey_counts_total:
  "map_of (make_survey_counts_dict survey_plans) TOTAL_PARTICIPANTS = Some (CInt 0)"
proof -
  have code: "map_of (fold (make_code_slots k) cs sc) TOTAL_PARTICIPANTS = map_of sc TOTAL_PARTICIPANTS"
    for k cs sc
    by (induction cs arbitrary: sc) (simp_all add: make_code_slots_def update_conv')
  have "map_of (fold make_configuration_slots ccs sc) TOTAL_PARTICIPANTS = map_of sc TOTAL_PARTICIPANTS"
    for ccs sc
    by (induction ccs arbitrary: sc) (simp_all add: make_configuration_slots_def code split: option.splits)
  then show ?thesis by (simp add: make_survey_counts_dict_def)
qed

lemma increment_other:
  "increment key sc = Inr sc' \<Longrightarrow> key \<noteq> k \<Longrightarrow> map_of sc' k = map_of sc k"
  by (auto simp: increment_def update_conv' split: option.splits cell.splits)

lemma increment_total:
  "increment TOTAL_PARTICIPANTS sc = Inr sc' \<Longrightarrow>
   \<exists>n. map_of sc TOTAL_PARTICIPANTS = Some (CInt n) \<and> map_of sc' TOTAL_PARTICIPANTS = Some (CInt (n + 1))"
  by (auto simp: increment_def update_conv' split: option.splits cell.splits)

lemma update_survey_counts_total:
  assumes "update_survey_counts survey_plans sc td = Inr sc'"
  shows "map_of sc' TOTAL_PARTICIPANTS = map_of sc TOTAL_PARTICIPANTS"
proof -
  have code: "update_code_count k code sc = Inr sc' \<Longrightarrow>
      map_of sc' TOTAL_PARTICIPANTS = map_of sc TOTAL_PARTICIPANTS" for k code sc sc'
    by (auto simp: update_code_count_def increment_other split: if_splits)
  have cc: "update_configuration_counts td cc sc = Inr sc' \<Longrightarrow>
      map_of sc' TOTAL_PARTICIPANTS = map_of sc TOTAL_PARTICIPANTS" for cc sc sc'
  proof -
    assume a: "update_configuration_counts td cc sc = Inr sc'"
    show ?thesis
    proof (cases "analysis_file_key cc")
      case None
      with a show ?thesis by (simp add: update_configuration_counts_def)
    next
      case (Some k)
      with a obtain cs where run: "foldE (update_code_count k) cs sc = Inr sc'"
        by (auto simp: update_configuration_counts_def split: sum.splits)
      show ?thesis
        by (rule foldE_invariant[OF run,
              of "\<lambda>x. map_of x TOTAL_PARTICIPANTS = map_of sc TOTAL_PARTICIPANTS"])
          (use code in auto)
    qed
  qed
  from assms have run: "foldE (update_configuration_counts td) (configurations survey_plans) sc = Inr sc'"
    by (simp add: update_survey_counts_def)
  show ?thesis
    by (rule foldE_invariant[OF run,
          of "\<lambda>x. map_of x TOTAL_PARTICIPANTS = map_of sc TOTAL_PARTICIPANTS"])
      (use cc in auto)
qed

lemma set_survey_percentages_total:
  assumes "set_survey_percentages survey_plans sc total_counts = Inr sc'"
  shows "map_of sc' TOTAL_PARTICIPANTS = map_of sc TOTAL_PARTICIPANTS"
proof -
  have tot: "set_total_percentage total_counts sc = Inr sc' \<Longrightarrow>
      map_of sc' TOTAL_PARTICIPANTS = map_of sc TOTAL_PARTICIPANTS" for sc sc'
    by (auto simp: set_total_percentage_def update_conv' split: option.splits sum.splits bool.splits)
  have code: "set_code_percentage total_counts k code sc = Inr sc' \<Longrightarrow>
      map_of sc' TOTAL_PARTICIPANTS = map_of sc TOTAL_PARTICIPANTS" for k code sc sc'
    by (auto simp: set_code_percentage_def update_conv'
        split: if_splits option.splits sum.splits bool.splits)
  have cc: "set_configuration_percentages total_counts cc sc = Inr sc' \<Longrightarrow>
      map_of sc' TOTAL_PARTICIPANTS = map_of sc TOTAL_PARTICIPANTS" for cc sc sc'
  proof -
    assume a: "set_configuration_percentages total_counts cc sc = Inr sc'"
    show ?thesis
    proof (cases "analysis_file_key cc")
      case None
      with a show ?thesis by (simp add: set_configuration_percentages_def)
    next
      case (Some k)
      with a have run: "foldE (set_code_percentage total_counts k) (codes (code_scheme cc)) sc = Inr sc'"
        by (auto simp: set_configuration_percentages_def)
      show ?thesis
        by (rule foldE_invariant[OF run,
              of "\<lambda>x. map_of x TOTAL_PARTICIPANTS = map_of sc TOTAL_PARTICIPANTS"])
          (use code in auto)
    qed
  qed
  from assms obtain sc1 where 1: "set_total_percentage total_counts sc = Inr sc1"
    and run: "foldE (set_configuration_percentages total_counts) (configurations survey_plans) sc1 = Inr sc'"
    by (auto simp: set_survey_percentages_def split: sum.splits)
  have "map_of sc' TOTAL_PARTICIPANTS = map_of sc1 TOTAL_PARTICIPANTS"
    by (rule foldE_invariant[OF run,
          of "\<lambda>x. map_of x TOTAL_PARTICIPANTS = map_of sc1 TOTAL_PARTICIPANTS"])
      (use cc in auto)
  with tot[OF 1] show ?thesis by simp
qed

lemma all_countedD:
  "all_counted themes \<Longrightarrow> map_of themes k = Some sc \<Longrightarrow>
   map_of sc TOTAL_PARTICIPANTS = Some (CInt (tp_count k themes))"
proof -
  assume a: "all_counted themes" "map_of themes k = Some sc"
  then obtain n where "map_of sc TOTAL_PARTICIPANTS = Some (CInt n)"
    unfolding all_counted_def by blast
  with a(2) show ?thesis by (simp add: tp_count_def)
qed

lemma int_sum_list: "int (sum_list (map f xs)) = sum_list (map (\<lambda>x. int (f x)) xs)"
  by (induction xs) auto

lemma foldE_flag:
  assumes "foldE f xs s = Inr s'"
    and "\<And>x s s'. x \<in> set xs \<Longrightarrow> f x s = Inr s' \<Longrightarrow> b s' = (b s \<or> p x)"
  shows "b s' = (b s \<or> list_ex p xs)"
  using assms
proof (induction xs arbitrary: s)
  case Nil
  then show ?case by simp
next
  case (Cons x xs)
  from Cons.prems(1) obtain s1 where 1: "f x s = Inr s1" and 2: "foldE f xs s1 = Inr s'"
    by (cases "f x s") auto
  have "b s1 = (b s \<or> p x)" using Cons.prems(2)[OF _ 1] by simp
  moreover have "b s' = (b s1 \<or> list_ex p xs)"
    using Cons.IH[OF 2] Cons.prems(2) by simp
  ultimately show ?case by auto
qed

lemma init_themes_fresh:
  assumes "init_themes survey_plans plan = Inr themes" "map_of themes k = Some sc"
  shows "sc = make_survey_counts_dict survey_plans"
proof -
  let ?D = "make_survey_counts_dict survey_plans"
  let ?P = "\<lambda>t. \<forall>k sc. map_of t k = Some sc \<longrightarrow> sc = ?D"
  have step: "?P (init_theme survey_plans cc c t)" if "?P t" for cc c t
    using that by (auto simp: init_theme_def update_conv')
  have code: "?P (fold (init_theme survey_plans cc) cs t)" if "?P t" for cc cs t
    by (rule fold_invariant[where Q = "\<lambda>x. True"]) (use that step in auto)
  have cc: "init_configuration_themes survey_plans cc t = Inr t' \<Longrightarrow> ?P t \<Longrightarrow> ?P t'" for cc t t'
  proof -
    assume a: "init_configuration_themes survey_plans cc t = Inr t'" and p: "?P t"
    from p have "?P (AList.update TOTAL_RELEVANT ?D t)" by (auto simp: update_conv')
    from code[OF this] a show "?P t'"
      by (auto simp: init_configuration_themes_def split: if_splits)
  qed
  from assms(1) have run: "foldE (init_configuration_themes survey_plans)
      (coding_configurations plan) [] = Inr themes"
    by (simp add: init_themes_def)
  have "?P themes"
    by (rule foldE_invariant[OF run, of ?P]) (use cc in auto)
  with assms(2) show ?thesis by blast
qed

lemma init_themes_counts:
  assumes "init_themes survey_plans plan = Inr themes"
  shows "all_counted themes" and "tp_count k themes = 0"
  using init_themes_fresh[OF assms] make_survey_counts_total[of survey_plans]
  by (auto simp: all_counted_def tp_count_def split: option.splits)

lemma count_in_theme_counts:
  assumes "count_in_theme survey_plans key td themes = Inr themes'"
  shows "tp_count k themes' = tp_count k themes + (if k = key then 1 else 0)"
    and "all_counted themes \<Longrightarrow> all_counted themes'"
proof -
  from assms obtain sc sc1 sc2 where sc: "map_of themes key = Some sc"
    and 1: "increment TOTAL_PARTICIPANTS sc = Inr sc1"
    and 2: "update_survey_counts survey_plans sc1 td = Inr sc2"
    and t: "themes' = AList.update key sc2 themes"
    by (auto simp: count_in_theme_def split: option.splits sum.splits)
  from increment_total[OF 1] obtain n where n: "map_of sc TOTAL_PARTICIPANTS = Some (CInt n)"
    "map_of sc1 TOTAL_PARTICIPANTS = Some (CInt (n + 1))" by blast
  with update_survey_counts_total[OF 2] have n2: "map_of sc2 TOTAL_PARTICIPANTS = Some (CInt (n + 1))"
    by simp
  show "tp_count k themes' = tp_count k themes + (if k = key then 1 else 0)"
    using sc n n2 by (simp add: tp_count_def t update_conv')
  show "all_counted themes'" if "all_counted themes"
    using that n2 by (auto simp: all_counted_def t update_conv')
qed

lemma count_label_counts:
  assumes "count_label survey_plans td cc label s = Inr s'"
  shows "tp_count k (fst s') = tp_count k (fst s) + (if counts_for_theme k cc label then 1 else 0)"
    and "snd s' = (snd s \<or> marks_relevant cc label)"
    and "all_counted (fst s) \<Longrightarrow> all_counted (fst s')"
proof -
  from assms obtain code where c: "get_code_with_code_id (code_scheme cc) label = Inr code"
    by (auto simp: count_label_def split: sum.splits)
  show "tp_count k (fst s') = tp_count k (fst s) + (if counts_for_theme k cc label then 1 else 0)"
  proof (cases "is_stop code")
    case True
    with assms c show ?thesis by (simp add: count_label_def counts_for_theme_def)
  next
    case False
    with assms c obtain t where t: "count_in_theme survey_plans (theme_key cc code) td (fst s) = Inr t"
      "fst s' = t"
      by (auto simp: count_label_def split: sum.splits)
    from count_in_theme_counts(1)[OF t(1), of k] t(2) False c show ?thesis
      by (auto simp: counts_for_theme_def)
  qed
  show "snd s' = (snd s \<or> marks_relevant cc label)"
    using assms c by (auto simp: count_label_def marks_relevant_def split: sum.splits if_splits)
  show "all_counted (fst s')" if "all_counted (fst s)"
  proof (cases "is_stop code")
    case True
    with assms c that show ?thesis by (simp add: count_label_def)
  next
    case False
    with assms c obtain t where t: "count_in_theme survey_plans (theme_key cc code) td (fst s) = Inr t"
      "fst s' = t"
      by (auto simp: count_label_def split: sum.splits)
    from count_in_theme_counts(2)[OF t(1) that] t(2) show ?thesis by simp
  qed
qed

lemma sum_list_if_int:
  "(\<Sum>x\<leftarrow>xs. if P x then 1 else 0) = int (length (filter P xs))"
  by (induction xs) auto

lemma count_configuration_labels_counts:
  assumes "count_configuration_labels survey_plans td cc s = Inr s'"
  shows "tp_count k (fst s') = tp_count k (fst s)
           + int (length (filter (counts_for_theme k cc) (labels_of cc td)))"
    and "snd s' = (snd s \<or> list_ex (marks_relevant cc) (labels_of cc td))"
    and "all_counted (fst s) \<Longrightarrow> all_counted (fst s')"
proof -
  from assms obtain v ls where v: "td (coded_field cc) = Some v" "iter_labels v = Inr ls"
    and run: "foldE (count_label survey_plans td cc) ls s = Inr s'"
    by (auto simp: count_configuration_labels_def split: if_splits option.splits sum.splits)
  from v have ls: "labels_of cc td = ls" by (simp add: labels_of_def)
  from foldE_measure[OF run, of "\<lambda>s. tp_count k (fst s)"
      "\<lambda>label. if counts_for_theme k cc label then 1 else 0"]
    count_label_counts(1)[of survey_plans td cc]
  show "tp_count k (fst s') = tp_count k (fst s)
           + int (length (filter (counts_for_theme k cc) (labels_of cc td)))"
    by (simp add: ls sum_list_if_int)
  from foldE_flag[OF run, of snd "marks_relevant cc"] count_label_counts(2)[of survey_plans td cc]
  show "snd s' = (snd s \<or> list_ex (marks_relevant cc) (labels_of cc td))"
    by (simp add: ls)
  show "all_counted (fst s')" if "all_counted (fst s)"
    by (rule foldE_invariant[OF run, of "\<lambda>s. all_counted (fst s)"])
      (use that count_label_counts(3) in auto)
qed

lemma count_themes_counts:
  assumes "count_themes survey_plans plan td themes = Inr themes'"
  shows "tp_count k themes' = tp_count k themes +
           (if counted td
            then int (theme_labels plan k td)
                 + (if k = TOTAL_RELEVANT \<and> relevant_participant plan td then 1 else 0)
            else 0)"
    and "all_counted themes \<Longrightarrow> all_counted themes'"
proof -
  show "tp_count k themes' = tp_count k themes +
           (if counted td
            then int (theme_labels plan k td)
                 + (if k = TOTAL_RELEVANT \<and> relevant_participant plan td then 1 else 0)
            else 0)"
  proof (cases "counted td")
    case False
    with assms have "themes' = themes"
      by (auto simp: count_themes_def counted_def split: sum.splits bool.splits)
    with False show ?thesis by simp
  next
    case True
    with assms obtain s where run: "foldE (count_configuration_labels survey_plans td)
        (coding_configurations plan) (themes, False) = Inr s"
      and fin: "(if snd s then count_in_theme survey_plans TOTAL_RELEVANT td (fst s) else Inr (fst s))
          = Inr themes'"
      by (auto simp: count_themes_def counted_def split: sum.splits)
    from foldE_measure[OF run, of "\<lambda>s. tp_count k (fst s)"
        "\<lambda>cc. int (length (filter (counts_for_theme k cc) (labels_of cc td)))"]
      count_configuration_labels_counts(1)[of survey_plans td]
    have 1: "tp_count k (fst s) = tp_count k themes + int (theme_labels plan k td)"
      by (simp add: theme_labels_def int_sum_list)
    from foldE_flag[OF run, of snd "\<lambda>cc. list_ex (marks_relevant cc) (labels_of cc td)"]
      count_configuration_labels_counts(2)[of survey_plans td]
    have 2: "snd s = relevant_participant plan td"
      by (simp add: relevant_participant_def)
    show ?thesis
    proof (cases "snd s")
      case False
      with fin 1 2 True show ?thesis by simp
    next
      case rel: True
      with fin have "count_in_theme survey_plans TOTAL_RELEVANT td (fst s) = Inr themes'" by simp
      from count_in_theme_counts(1)[OF this, of k] 1 2 rel True show ?thesis by simp
    qed
  qed
  show "all_counted themes'" if "all_counted themes"
  proof (cases "counted td")
    case False
    with assms have "themes' = themes"
      by (auto simp: count_themes_def counted_def split: sum.splits bool.splits)
    with that show ?thesis by simp
  next
    case True
    with assms obtain s where run: "foldE (count_configuration_labels survey_plans td)
        (coding_configurations plan) (themes, False) = Inr s"
      and fin: "(if snd s then count_in_theme survey_plans TOTAL_RELEVANT td (fst s) else Inr (fst s))
          = Inr themes'"
      by (auto simp: count_themes_def counted_def split: sum.splits)
    have "all_counted (fst s)"
      by (rule foldE_invariant[OF run, of "\<lambda>s. all_counted (fst s)"])
        (use that count_configuration_labels_counts(3) in auto)
    with fin count_in_theme_counts(2) show ?thesis by (auto split: if_splits)
  qed
qed

lemma episode_counts_totals:
  assumes "episode_counts survey_plans plan individuals = Inr themes"
  shows "tp_count k themes = sum_list (map (theme_total plan k) individuals)"
    and "all_counted themes"
proof -
  from assms obtain t0 where init: "init_themes survey_plans plan = Inr t0"
    and run: "foldE (count_themes survey_plans plan) individuals t0 = Inr themes"
    by (auto simp: episode_counts_def split: sum.splits)
  from foldE_measure[OF run, of "tp_count k" "theme_total plan k"]
    count_themes_counts(1)[of survey_plans plan]
  show "tp_count k themes = sum_list (map (theme_total plan k) individuals)"
    by (simp add: theme_total_def init_themes_counts(2)[OF init])
  show "all_counted themes"
    by (rule foldE_invariant[OF run, of all_counted])
      (use init_themes_counts(1)[OF init] count_themes_counts(2) in auto)
qed

lemma set_theme_percentages_counts:
  assumes "set_theme_percentages survey_plans key themes = Inr themes'"
  shows "tp_count k themes' = tp_count k themes"
    and "all_counted themes \<Longrightarrow> all_counted themes'"
    and "dom (map_of themes') = dom (map_of themes)"
    and "map_of themes TOTAL_RELEVANT \<noteq> None"
proof -
  from assms obtain theme tot theme' where th: "map_of themes key = Some theme"
    and tot: "map_of themes TOTAL_RELEVANT = Some tot"
    and run: "set_survey_percentages survey_plans theme
        (if key = TOTAL_RELEVANT then None else Some tot) = Inr theme'"
    and t: "themes' = AList.update key theme' themes"
    by (auto simp: set_theme_percentages_def split: option.splits sum.splits)
  note same = set_survey_percentages_total[OF run]
  show "tp_count k themes' = tp_count k themes"
    using th same by (simp add: tp_count_def t update_conv')
  show "all_counted themes'" if "all_counted themes"
    using that th same by (auto simp: all_counted_def t update_conv')
  show "dom (map_of themes') = dom (map_of themes)"
    using th by (auto simp: t update_conv')
  show "map_of themes TOTAL_RELEVANT \<noteq> None" using tot by simp
qed

lemma set_configuration_theme_percentages_counts:
  assumes "set_configuration_theme_percentages survey_plans cc themes = Inr themes'"
  shows "tp_count k themes' = tp_count k themes"
    and "all_counted themes \<Longrightarrow> all_counted themes'"
    and "dom (map_of themes') = dom (map_of themes)"
proof -
  from assms have run: "foldE (set_code_theme_percentages survey_plans cc)
      (codes (code_scheme cc)) themes = Inr themes'"
    by (auto simp: set_configuration_theme_percentages_def split: if_splits)
  have step: "tp_count k t' = tp_count k t \<and> (all_counted t \<longrightarrow> all_counted t')
      \<and> dom (map_of t') = dom (map_of t)"
    if "set_code_theme_percentages survey_plans cc code t = Inr t'" for code t t'
    using that set_theme_percentages_counts(1-3)[of survey_plans "theme_key cc code" t t']
    by (auto simp: set_code_theme_percentages_def split: if_splits)
  show "tp_count k themes' = tp_count k themes"
    by (rule foldE_invariant[OF run, of "\<lambda>t. tp_count k t = tp_count k themes"])
      (use step in auto)
  show "all_counted themes'" if "all_counted themes"
    by (rule foldE_invariant[OF run, of all_counted]) (use that step in auto)
  show "dom (map_of themes') = dom (map_of themes)"
    by (rule foldE_invariant[OF run, of "\<lambda>t. dom (map_of t) = dom (map_of themes)"])
      (use step in auto)
qed

lemma episode_themes_totals:
  assumes "episode_themes survey_plans plan individuals = Inr themes"
  shows "tp_count k themes = sum_list (map (theme_total plan k) individuals)"
    and "all_counted themes"
    and "map_of themes TOTAL_RELEVANT \<noteq> None"
proof -
  from assms obtain t1 t2 where 1: "episode_counts survey_plans plan individuals = Inr t1"
    and 2: "set_theme_percentages survey_plans TOTAL_RELEVANT t1 = Inr t2"
    and run: "foldE (set_configuration_theme_percentages survey_plans)
        (coding_configurations plan) t2 = Inr themes"
    by (auto simp: episode_themes_def split: sum.splits)
  have "tp_count k themes = tp_count k t2"
    by (rule foldE_invariant[OF run, of "\<lambda>t. tp_count k t = tp_count k t2"])
      (use set_configuration_theme_percentages_counts(1) in auto)
  with set_theme_percentages_counts(1)[OF 2] episode_counts_totals(1)[OF 1]
  show "tp_count k themes = sum_list (map (theme_total plan k) individuals)" by simp
  have "all_counted t2"
    using set_theme_percentages_counts(2)[OF 2] episode_counts_totals(2)[OF 1] by simp
  show "all_counted themes"
    by (rule foldE_invariant[OF run, of all_counted])
      (use \<open>all_counted t2\<close> set_configuration_theme_percentages_counts(2) in auto)
  have "dom (map_of themes) = dom (map_of t2)"
    by (rule foldE_invariant[OF run, of "\<lambda>t. dom (map_of t) = dom (map_of t2)"])
      (use set_configuration_theme_percentages_counts(3) in auto)
  with set_theme_percentages_counts(3,4)[OF 2]
  show "map_of themes TOTAL_RELEVANT \<noteq> None" by (metis domIff)
qed

lemmas theme_defs = theme_distributions_def add_episode_def episode_themes_def episode_counts_def
  init_themes_def init_configuration_themes_def init_theme_def theme_key_def
  make_survey_counts_dict_def make_configuration_slots_def make_code_slots_def survey_key_def
  count_themes_def count_configuration_labels_def count_label_def count_in_theme_def increment_def
  update_survey_counts_def update_configuration_counts_def update_code_count_def assigned_codes_def
  iter_labels_def set_theme_percentages_def set_survey_percentages_def set_total_percentage_def
  set_configuration_percentages_def set_code_percentage_def the_total_def equals_zero_def ratio_def
  set_configuration_theme_percentages_def set_code_theme_percentages_def
  configurations_def is_stop_def consent_is_def single_code_def get_code_with_code_id_def
  percentage_def

lemma ex_themes:
  "theme_distributions ex_demog_plans [ex_episode ''e1''] ex_people =
   Inr [(''e1_raw'',
       [(TOTAL_RELEVANT,
         [(TOTAL_PARTICIPANTS, CInt 1),
          (''Total Participants %'', CRound 1 1), (''gender:yes'', CInt 1),
          (''gender:yes %'', CRound 1 1), (''gender:NC'', CInt 0),
          (''gender:NC %'', CStr ''-'')]),
        (''e1_yes'',
         [(TOTAL_PARTICIPANTS, CInt 2),
          (''Total Participants %'', CRound 2 1), (''gender:yes'', CInt 2),
          (''gender:yes %'', CRound 2 1), (''gender:NC'', CInt 0),
          (''gender:NC %'', CStr ''-'')]),
        (''e1_NC'',
         [(TOTAL_PARTICIPANTS, CInt 2), (''Total Participants %'', CNone),
          (''gender:yes'', CInt 1), (''gender:yes %'', CNone),
          (''gender:NC'', CInt 1), (''gender:NC %'', CNone)])])]"
  by (simp add: theme_defs ex_people_def ex_individual_def ex_episode_def ex_demog_plans_def
      ex_scheme_def ex_codes_def)

lemma get_code_in_scheme:
  "get_code_with_code_id scheme cid = Inr c \<Longrightarrow> c \<in> set (codes scheme)"
  by (auto simp: get_code_with_code_id_def find_Some_iff split: option.splits)

lemma plan_codes_allD:
  "plan_codes_all P plan \<Longrightarrow> cc \<in> set (coding_configurations plan) \<Longrightarrow>
   get_code_with_code_id (code_scheme cc) label = Inr code \<Longrightarrow> P cc code"
  using get_code_in_scheme[of "code_scheme cc" label code]
  by (auto simp: plan_codes_all_def list_all_iff)

lemma relevant_iff_normal:
  assumes "plan_codes_all normal_not_stop plan"
  shows "relevant_participant plan td = has_normal_code plan td"
proof -
  have "marks_relevant cc label =
      (case get_code_with_code_id (code_scheme cc) label of
         Inl e \<Rightarrow> False | Inr code \<Rightarrow> code_type code = NORMAL)"
    if "cc \<in> set (coding_configurations plan)" for cc label
    using plan_codes_allD[OF assms that, of label]
    by (auto simp: marks_relevant_def normal_not_stop_def split: sum.splits)
  then show ?thesis
    by (auto simp: relevant_participant_def has_normal_code_def list_ex_iff)
qed

lemma no_labels_for_total_row:
  assumes "plan_codes_all total_row_reserved plan"
  shows "theme_labels plan TOTAL_RELEVANT td = 0"
proof -
  have "\<not> counts_for_theme TOTAL_RELEVANT cc label"
    if "cc \<in> set (coding_configurations plan)" for cc label
    using plan_codes_allD[OF assms that, of label]
    by (auto simp: counts_for_theme_def total_row_reserved_def split: sum.splits)
  then show ?thesis
    by (simp add: theme_labels_def filter_empty_conv)
qed

lemma sum_theme_total_relevant:
  assumes "plan_codes_all total_row_reserved plan"
  shows "sum_list (map (theme_total plan TOTAL_RELEVANT) individuals)
       = int (length (filter (\<lambda>td. counted td \<and> relevant_participant plan td) individuals))"
  by (induction individuals) (simp_all add: theme_total_def no_labels_for_total_row[OF assms])

lemma sum_theme_total_other:
  assumes "k \<noteq> TOTAL_RELEVANT"
  shows "sum_list (map (theme_total plan k) individuals)
       = int (sum_list (map (theme_labels plan k) (filter counted individuals)))"
  using assms by (induction individuals) (simp_all add: theme_total_def)

lemma add_episode_other:
  assumes "foldE (add_episode survey_plans individuals) plans eps0 = Inr eps"
    and "k \<notin> raw_field ` set plans"
  shows "map_of eps k = map_of eps0 k"
  by (rule foldE_invariant[OF assms(1), of "\<lambda>e. map_of e k = map_of eps0 k"])
    (use assms(2) in \<open>auto simp: add_episode_def update_conv' split: sum.splits\<close>)

lemma theme_distributions_lookup:
  assumes "foldE (add_episode survey_plans individuals) plans eps0 = Inr eps"
    and "plan \<in> set plans" and "distinct (map raw_field plans)"
  shows "\<exists>themes. episode_themes survey_plans plan individuals = Inr themes
           \<and> map_of eps (raw_field plan) = Some themes"
  using assms
proof (induction plans arbitrary: eps0)
  case Nil
  then show ?case by simp
next
  case (Cons p ps)
  from Cons.prems(1) obtain e1 where e1: "add_episode survey_plans individuals p eps0 = Inr e1"
    and f2: "foldE (add_episode survey_plans individuals) ps e1 = Inr eps"
    by (cases "add_episode survey_plans individuals p eps0") auto
  from e1 obtain themes where 1: "episode_themes survey_plans p individuals = Inr themes"
    and "e1 = AList.update (raw_field p) themes eps0"
    by (auto simp: add_episode_def split: sum.splits)
  with f2 have 2: "foldE (add_episode survey_plans individuals) ps
        (AList.update (raw_field p) themes eps0) = Inr eps" by simp
  show ?case
  proof (cases "plan = p")
    case True
    from Cons.prems(3) have "raw_field p \<notin> raw_field ` set ps" by simp
    from add_episode_other[OF 2 this] 1 True show ?thesis by (simp add: update_conv')
  next
    case False
    with Cons.prems have "plan \<in> set ps" "distinct (map raw_field ps)" by auto
    from Cons.IH[OF 2 this] show ?thesis .
  qed
qed

text \<open>The rows of the themes exist from the start and are never removed.\<close>

lemma init_theme_keys:
  "dom (map_of (fold (init_theme survey_plans cc) cs t))
     = dom (map_of t) \<union> theme_key cc ` {c \<in> set cs. \<not> is_stop c}"
  by (induction cs arbitrary: t) (auto simp: init_theme_def update_conv')

lemma init_themes_keys:
  assumes "foldE (init_configuration_themes survey_plans) ccs t = Inr t'"
  shows "dom (map_of t) \<subseteq> dom (map_of t')"
    and "\<forall>cc\<in>set ccs. \<forall>c\<in>set (codes (code_scheme cc)). \<not> is_stop c \<longrightarrow>
           theme_key cc c \<in> dom (map_of t')"
  using assms
proof (induction ccs arbitrary: t)
  case Nil
  case 1 then show ?case by simp
  case 2 then show ?case by simp
next
  case (Cons cc ccs)
  case 1
  from 1 obtain t1 where a: "init_configuration_themes survey_plans cc t = Inr t1"
    and b: "foldE (init_configuration_themes survey_plans) ccs t1 = Inr t'"
    by (cases "init_configuration_themes survey_plans cc t") auto
  from a have "t1 = fold (init_theme survey_plans cc) (codes (code_scheme cc))
      (AList.update TOTAL_RELEVANT (make_survey_counts_dict survey_plans) t)"
    by (auto simp: init_configuration_themes_def split: if_splits)
  then have k: "dom (map_of t1) = insert TOTAL_RELEVANT (dom (map_of t))
      \<union> theme_key cc ` {c \<in> set (codes (code_scheme cc)). \<not> is_stop c}"
    by (simp add: init_theme_keys update_conv')
  with Cons.IH(1)[OF b] show ?case by auto
  case 2
  from 2 obtain t1 where a: "init_configuration_themes survey_plans cc t = Inr t1"
    and b: "foldE (init_configuration_themes survey_plans) ccs t1 = Inr t'"
    by (cases "init_configuration_themes survey_plans cc t") auto
  from a have "t1 = fold (init_theme survey_plans cc) (codes (code_scheme cc))
      (AList.update TOTAL_RELEVANT (make_survey_counts_dict survey_plans) t)"
    by (auto simp: init_configuration_themes_def split: if_splits)
  then have k: "dom (map_of t1) = insert TOTAL_RELEVANT (dom (map_of t))
      \<union> theme_key cc ` {c \<in> set (codes (code_scheme cc)). \<not> is_stop c}"
    by (simp add: init_theme_keys update_conv')
  with Cons.IH(1)[OF b] Cons.IH(2)[OF b] show ?case by auto
qed

lemma count_in_theme_dom:
  "count_in_theme survey_plans key td themes = Inr themes' \<Longrightarrow>
   dom (map_of themes') = dom (map_of themes)"
proof -
  assume "count_in_theme survey_plans key td themes = Inr themes'"
  then obtain sc sc2 where "map_of themes key = Some sc" "themes' = AList.update key sc2 themes"
    by (auto simp: count_in_theme_def split: option.splits sum.splits)
  then show ?thesis by (auto simp: update_conv' split: if_splits)
qed

lemma count_themes_dom:
  assumes "count_themes survey_plans plan td themes = Inr themes'"
  shows "dom (map_of themes') = dom (map_of themes)"
proof -
  have label: "dom (map_of (fst s')) = dom (map_of (fst s))"
    if "count_label survey_plans td cc label s = Inr s'" for cc label s s'
  proof -
    from that have "fst s' = fst s \<or> (\<exists>key. count_in_theme survey_plans key td (fst s) = Inr (fst s'))"
      by (auto simp: count_label_def split: sum.splits if_splits)
    with count_in_theme_dom show ?thesis by metis
  qed
  have cc: "dom (map_of (fst s')) = dom (map_of (fst s))"
    if "count_configuration_labels survey_plans td cc s = Inr s'" for cc s s'
  proof -
    from that obtain ls where run: "foldE (count_label survey_plans td cc) ls s = Inr s'"
      by (auto simp: count_configuration_labels_def split: if_splits option.splits sum.splits)
    show ?thesis
      by (rule foldE_invariant[OF run, of "\<lambda>x. dom (map_of (fst x)) = dom (map_of (fst s))"])
        (use label in auto)
  qed
  show ?thesis
  proof (cases "counted td")
    case False
    with assms have "themes' = themes"
      by (auto simp: count_themes_def counted_def split: sum.splits bool.splits)
    then show ?thesis by simp
  next
    case True
    with assms obtain s where run: "foldE (count_configuration_labels survey_plans td)
        (coding_configurations plan) (themes, False) = Inr s"
      and fin: "(if snd s then count_in_theme survey_plans TOTAL_RELEVANT td (fst s) else Inr (fst s))
          = Inr themes'"
      by (auto simp: count_themes_def counted_def split: sum.splits)
    have "dom (map_of (fst s)) = dom (map_of themes)"
      by (rule foldE_invariant[OF run, of "\<lambda>x. dom (map_of (fst x)) = dom (map_of themes)"])
        (use cc in auto)
    with fin count_in_theme_dom show ?thesis by (auto split: if_splits)
  qed
qed

lemma episode_themes_rows:
  assumes "episode_themes survey_plans plan individuals = Inr themes"
    and "cc \<in> set (coding_configurations plan)" "c \<in> set (codes (code_scheme cc))" "\<not> is_stop c"
  shows "map_of themes (theme_key cc c) \<noteq> None"
proof -
  from assms(1) obtain t0 t1 t2 where 0: "init_themes survey_plans plan = Inr t0"
    and 1: "foldE (count_themes survey_plans plan) individuals t0 = Inr t1"
    and 2: "set_theme_percentages survey_plans TOTAL_RELEVANT t1 = Inr t2"
    and 3: "foldE (set_configuration_theme_percentages survey_plans)
        (coding_configurations plan) t2 = Inr themes"
    by (auto simp: episode_themes_def episode_counts_def split: sum.splits)
  from init_themes_keys(2)[OF 0[unfolded init_themes_def]] assms(2-4)
  have "theme_key cc c \<in> dom (map_of t0)" by blast
  moreover have "dom (map_of t1) = dom (map_of t0)"
    by (rule foldE_invariant[OF 1, of "\<lambda>t. dom (map_of t) = dom (map_of t0)"])
      (use count_themes_dom in auto)
  moreover have "dom (map_of themes) = dom (map_of t2)"
    by (rule foldE_invariant[OF 3, of "\<lambda>t. dom (map_of t) = dom (map_of t2)"])
      (use set_configuration_theme_percentages_counts(3) in auto)
  ultimately show ?thesis using set_theme_percentages_counts(3)[OF 2] by auto
qed

text \<open>
  C2: after the theme pass, for every RQA plan (raw fields pairwise distinct, normal codes
  without STOP marker, no theme named like the total row), the slot "Total Participants"
  of the row "Total Relevant Participants" of its episode is the number of individuals
  who are not skipped by the consent filter and have at least one label of a NORMAL code
  in the configurations of the episode: each such individual once, however many themes
  the individual contributes to.
\<close>

theorem total_relevant_participants_row:
  assumes "theme_distributions survey_plans rqa_plans individuals = Inr episodes"
    and "plan \<in> set rqa_plans" and "distinct (map raw_field rqa_plans)"
    and "plan_codes_all normal_not_stop plan"
    and "plan_codes_all total_row_reserved plan"
  shows "\<exists>themes sc. map_of episodes (raw_field plan) = Some themes
           \<and> map_of themes TOTAL_RELEVANT = Some sc
           \<and> map_of sc TOTAL_PARTICIPANTS =
               Some (CInt (int (length (filter (\<lambda>td. counted td \<and> has_normal_code plan td)
                                          individuals))))"
proof -
  from theme_distributions_lookup[OF assms(1)[unfolded theme_distributions_def] assms(2,3)]
  obtain themes where run: "episode_themes survey_plans plan individuals = Inr themes"
    and ep: "map_of episodes (raw_field plan) = Some themes" by blast
  from episode_themes_totals(3)[OF run] obtain sc where sc: "map_of themes TOTAL_RELEVANT = Some sc"
    by blast
  from all_countedD[OF episode_themes_totals(2)[OF run] sc]
    episode_themes_totals(1)[OF run, of TOTAL_RELEVANT]
    sum_theme_total_relevant[OF assms(5), of individuals]
  have "map_of sc TOTAL_PARTICIPANTS =
      Some (CInt (int (length (filter (\<lambda>td. counted td \<and> relevant_participant plan td)
                                 individuals))))"
    by simp
  with ep sc show ?thesis by (simp add: relevant_iff_normal[OF assms(4)])
qed

theorem total_relevant_participants_row_witness:
  "\<exists>episodes themes sc yes nc.
      theme_distributions ex_demog_plans [ex_episode ''e1''] ex_people = Inr episodes
      \<and> map_of episodes ''e1_raw'' = Some themes
      \<and> map_of themes TOTAL_RELEVANT = Some sc \<and> map_of sc TOTAL_PARTICIPANTS = Some (CInt 1)
      \<and> map_of themes ''e1_yes'' = Some yes \<and> map_of yes TOTAL_PARTICIPANTS = Some (CInt 2)
      \<and> map_of themes ''e1_NC'' = Some nc \<and> map_of nc TOTAL_PARTICIPANTS = Some (CInt 2)"
proof -
  have h: "ex_episode ''e1'' \<in> set [ex_episode ''e1'']" "distinct (map raw_field [ex_episode ''e1''])"
    "plan_codes_all normal_not_stop (ex_episode ''e1'')"
    "plan_codes_all total_row_reserved (ex_episode ''e1'')"
    by (simp_all add: plan_codes_all_def normal_not_stop_def total_row_reserved_def is_stop_def
        theme_key_def ex_episode_def ex_scheme_def ex_codes_def)
  have n: "length (filter (\<lambda>td. counted td \<and> has_normal_code (ex_episode ''e1'') td) ex_people) = 1"
    by (simp add: counted_def consent_is_def has_normal_code_def labels_of_def iter_labels_def
        get_code_with_code_id_def ex_people_def ex_individual_def ex_episode_def ex_scheme_def
        ex_codes_def)
  from total_relevant_participants_row[OF ex_themes h] n ex_themes show ?thesis
    by (simp add: ex_episode_def)
qed

text \<open>
  C10: after the theme pass, the slot "Total Participants" of the row of a theme (a code
  that is not STOP, whose key is not that of the total row) is the number of labels, over
  the individuals not skipped by the consent filter, whose code is not STOP and has that
  theme key: a code that stands in two labels of one individual is counted twice.
\<close>

theorem theme_rows_count_labels:
  assumes "theme_distributions survey_plans rqa_plans individuals = Inr episodes"
    and "plan \<in> set rqa_plans" and "distinct (map raw_field rqa_plans)"
    and "cc \<in> set (coding_configurations plan)" and "c \<in> set (codes (code_scheme cc))"
    and "\<not> is_stop c" and "theme_key cc c \<noteq> TOTAL_RELEVANT"
  shows "\<exists>themes sc. map_of episodes (raw_field plan) = Some themes
           \<and> map_of themes (theme_key cc c) = Some sc
           \<and> map_of sc TOTAL_PARTICIPANTS =
               Some (CInt (int (sum_list (map (theme_labels plan (theme_key cc c))
                                            (filter counted individuals)))))"
proof -
  from theme_distributions_lookup[OF assms(1)[unfolded theme_distributions_def] assms(2,3)]
  obtain themes where run: "episode_themes survey_plans plan individuals = Inr themes"
    and ep: "map_of episodes (raw_field plan) = Some themes" by blast
  from episode_themes_rows[OF run assms(4-6)] obtain sc where
    sc: "map_of themes (theme_key cc c) = Some sc" by blast
  from all_countedD[OF episode_themes_totals(2)[OF run] sc]
    episode_themes_totals(1)[OF run, of "theme_key cc c"]
    sum_theme_total_other[OF assms(7), of plan individuals]
  have "map_of sc TOTAL_PARTICIPANTS =
      Some (CInt (int (sum_list (map (theme_labels plan (theme_key cc c))
                                   (filter counted individuals)))))"
    by simp
  with ep sc show ?thesis by simp
qed

theorem theme_rows_count_labels_witness:
  "\<exists>episodes themes sc.
      theme_distributions ex_demog_plans [ex_episode ''e1''] ex_people = Inr episodes
      \<and> map_of episodes ''e1_raw'' = Some themes
      \<and> map_of themes ''e1_yes'' = Some sc \<and> map_of sc TOTAL_PARTICIPANTS = Some (CInt 2)
      \<and> length (filter counted ex_people) = 2"
proof -
  let ?plan = "ex_episode ''e1''"
  let ?cc = "hd (coding_configurations (ex_episode ''e1''))"
  let ?c = "hd (codes (code_scheme ?cc))"
  have h: "?plan \<in> set [?plan]" "distinct (map raw_field [?plan])"
    "?cc \<in> set (coding_configurations ?plan)" "?c \<in> set (codes (code_scheme ?cc))"
    "\<not> is_stop ?c" "theme_key ?cc ?c \<noteq> TOTAL_RELEVANT"
    by (simp_all add: is_stop_def theme_key_def ex_episode_def ex_scheme_def ex_codes_def)
  have k: "theme_key ?cc ?c = ''e1_yes''"
    by (simp add: theme_key_def ex_episode_def ex_scheme_def ex_codes_def)
  have c: "filter counted ex_people
      = [ex_individual Codes_FALSE ''c-yes'' [''c-yes'', ''c-yes'', ''c-nc''],
         ex_individual Codes_FALSE ''c-nc'' [''c-nc'']]"
    by (simp add: counted_def consent_is_def ex_people_def ex_individual_def)
  have n: "sum_list (map (theme_labels ?plan ''e1_yes'') (filter counted ex_people)) = 2"
    unfolding c
    by (simp add: theme_labels_def counts_for_theme_def labels_of_def iter_labels_def theme_key_def
        get_code_with_code_id_def is_stop_def ex_individual_def ex_episode_def ex_scheme_def
        ex_codes_def)
  from theme_rows_count_labels[OF ex_themes h] n ex_themes c show ?thesis
    by (simp add: k ex_episode_def)
qed

subsection \<open>Sample messages\<close>

lemma length_draw: "length (draw tape i pool k) = k"
  by (induction k arbitrary: i pool) (simp_all add: Let_def)

lemma collect_label_size:
  assumes "collect_label plan cc msg label m = Inr m'"
  shows "pool_size sv m' = pool_size sv m + (if label_has_value cc sv label then 1 else 0)"
  using assms
  by (auto simp: collect_label_def pool_size_def label_has_value_def update_conv'
      split: sum.splits option.splits)

lemma collect_label_distinct:
  assumes "collect_label plan cc msg label m = Inr m'" "distinct (map fst m)"
  shows "distinct (map fst m')"
  using assms
  by (auto simp: collect_label_def distinct_update split: sum.splits option.splits)

lemma sum_list_if_filter:
  "(\<Sum>x\<leftarrow>xs. if P x then 1 else 0) = length (filter P xs)"
  by (induction xs) auto

lemma collect_message_size:
  assumes "collect_message opt_in plan cc msg m = Inr m'"
  shows "pool_size sv m' = pool_size sv m +
           (if opt_in msg CONSENT_WITHDRAWN_KEY plan
            then length (filter (label_has_value cc sv) (labels_of cc msg)) else 0)"
proof (cases "opt_in msg CONSENT_WITHDRAWN_KEY plan")
  case False
  with assms show ?thesis by (simp add: collect_message_def)
next
  case True
  with assms obtain v ls where v: "msg (coded_field cc) = Some v" "iter_labels v = Inr ls"
    and run: "foldE (collect_label plan cc msg) ls m = Inr m'"
    by (auto simp: collect_message_def split: option.splits sum.splits)
  from foldE_measure[OF run, of "pool_size sv" "\<lambda>label. if label_has_value cc sv label then 1 else 0"]
    collect_label_size[of plan cc msg]
  have "pool_size sv m' = pool_size sv m + (\<Sum>label\<leftarrow>ls. if label_has_value cc sv label then 1 else 0)"
    by blast
  with True v show ?thesis by (simp add: sum_list_if_filter labels_of_def)
qed

lemma collect_message_distinct:
  assumes "collect_message opt_in plan cc msg m = Inr m'" "distinct (map fst m)"
  shows "distinct (map fst m')"
proof (cases "opt_in msg CONSENT_WITHDRAWN_KEY plan")
  case False
  with assms show ?thesis by (simp add: collect_message_def)
next
  case True
  with assms obtain ls where run: "foldE (collect_label plan cc msg) ls m = Inr m'"
    by (auto simp: collect_message_def split: option.splits sum.splits)
  show ?thesis
    by (rule foldE_invariant[OF run, of "\<lambda>m. distinct (map fst m)"])
      (use assms(2) collect_label_distinct in auto)
qed

lemma init_pools_distinct:
  "distinct (map fst m0) \<Longrightarrow>
   distinct (map fst (fold (\<lambda>code m. AList.update (string_value code) [] m) (cs :: Code list) m0))"
  by (induction cs arbitrary: m0) (simp_all add: distinct_update)

lemma init_pools_empty:
  "pool_size sv m0 = 0 \<Longrightarrow>
   pool_size sv (fold (\<lambda>code m. AList.update (string_value code) [] m) (cs :: Code list) m0) = 0"
  by (induction cs arbitrary: m0) (simp_all add: pool_size_def update_conv')

lemma collect_messages_pools:
  assumes "collect_messages opt_in plan cc messages = Inr m"
  shows "distinct (map fst m)" and "pool_size sv m = assigned_count opt_in plan cc messages sv"
proof -
  let ?init = "init_code_to_messages cc"
  from assms have run: "foldE (collect_message opt_in plan cc) messages ?init = Inr m"
    by (simp add: collect_messages_def)
  have d0: "distinct (map fst ?init)"
    using init_pools_distinct[of "[]"] by (simp add: init_code_to_messages_def)
  show "distinct (map fst m)"
    by (rule foldE_invariant[OF run, of "\<lambda>m. distinct (map fst m)"])
      (use d0 collect_message_distinct in auto)
  have z: "pool_size sv ?init = 0"
    using init_pools_empty[of sv "[]"] by (simp add: init_code_to_messages_def pool_size_def)
  from foldE_measure[OF run, of "pool_size sv"
      "\<lambda>msg. if opt_in msg CONSENT_WITHDRAWN_KEY plan
             then length (filter (label_has_value cc sv) (labels_of cc msg)) else 0"]
    collect_message_size[of opt_in plan cc]
  show "pool_size sv m = assigned_count opt_in plan cc messages sv"
    unfolding assigned_count_def z by simp
qed

lemma sample_code_rows:
  "\<exists>new. sample_code tape plan cc kv s = Inr (fst s + min 100 (length (snd kv)), snd s @ new)
     \<and> length new = min 100 (length (snd kv))
     \<and> (\<forall>row\<in>set new. Sample_Episode row = dataset_name plan
           \<and> Sample_Code_Scheme row = name (code_scheme cc) \<and> Sample_Code row = fst kv)"
  by (simp add: sample_code_def random_sample_def length_draw Let_def)

lemma sample_pools_rows:
  assumes "distinct (map fst m)"
  shows "\<exists>i' new. foldE (sample_code tape plan cc) m s = Inr (i', snd s @ new)
     \<and> (\<forall>sv. length (filter (\<lambda>row. Sample_Code row = sv) new) = min 100 (pool_size sv m))
     \<and> (\<forall>row\<in>set new. Sample_Episode row = dataset_name plan
           \<and> Sample_Code_Scheme row = name (code_scheme cc))"
  using assms
proof (induction m arbitrary: s)
  case Nil
  show ?case by (intro exI[of _ "fst s"] exI[of _ "[]"]) (simp add: pool_size_def)
next
  case (Cons kv m)
  obtain new1 where 1: "sample_code tape plan cc kv s
      = Inr (fst s + min 100 (length (snd kv)), snd s @ new1)"
    and len1: "length new1 = min 100 (length (snd kv))"
    and rows1: "\<forall>row\<in>set new1. Sample_Episode row = dataset_name plan
           \<and> Sample_Code_Scheme row = name (code_scheme cc) \<and> Sample_Code row = fst kv"
    using sample_code_rows[of tape plan cc kv s] by blast
  let ?s1 = "(fst s + min 100 (length (snd kv)), snd s @ new1)"
  from Cons.prems have dm: "distinct (map fst m)" and fresh: "fst kv \<notin> fst ` set m" by auto
  from Cons.IH[OF dm, of ?s1] obtain i' new2 where
    2: "foldE (sample_code tape plan cc) m ?s1 = Inr (i', snd ?s1 @ new2)"
    and cnt2: "\<forall>sv. length (filter (\<lambda>row. Sample_Code row = sv) new2) = min 100 (pool_size sv m)"
    and rows2: "\<forall>row\<in>set new2. Sample_Episode row = dataset_name plan
           \<and> Sample_Code_Scheme row = name (code_scheme cc)"
    by blast
  have run: "foldE (sample_code tape plan cc) (kv # m) s = Inr (i', snd s @ (new1 @ new2))"
    using 1 2 by simp
  have f1: "filter (\<lambda>row. Sample_Code row = sv) new1 = (if sv = fst kv then new1 else [])" for sv
    using rows1 by (auto simp: filter_empty_conv filter_id_conv)
  have none: "map_of m (fst kv) = None" using fresh by (simp add: map_of_eq_None_iff)
  have cnt: "length (filter (\<lambda>row. Sample_Code row = sv) (new1 @ new2))
      = min 100 (pool_size sv (kv # m))" for sv
  proof (cases "sv = fst kv")
    case True
    with none cnt2 len1 f1 show ?thesis by (cases kv) (simp add: pool_size_def)
  next
    case False
    with cnt2 f1 show ?thesis by (cases kv) (simp add: pool_size_def)
  qed
  from run cnt rows1 rows2 show ?case by (intro exI[of _ i'] exI[of _ "new1 @ new2"]) auto
qed

lemma init_pools_keys:
  "fst ` set (fold (\<lambda>code m. AList.update (string_value code) [] m) (cs :: Code list) m0)
     = fst ` set m0 \<union> string_value ` set cs"
  by (induction cs arbitrary: m0) (simp_all add: dom_update Un_commute Un_left_commute)

lemma collect_label_total:
  assumes "string_value ` set (codes (code_scheme cc)) \<subseteq> dom (map_of m)"
    and "msg (raw_field plan) \<noteq> None"
    and "\<not> isl (get_code_with_code_id (code_scheme cc) label)"
  shows "\<exists>m'. collect_label plan cc msg label m = Inr m'
           \<and> string_value ` set (codes (code_scheme cc)) \<subseteq> dom (map_of m')"
proof -
  from assms(3) obtain c where c: "get_code_with_code_id (code_scheme cc) label = Inr c"
    by (cases "get_code_with_code_id (code_scheme cc) label") auto
  from get_code_in_scheme[OF c] assms(1) obtain pool where "map_of m (string_value c) = Some pool"
    by blast
  moreover from assms(2) obtain raw where "msg (raw_field plan) = Some raw" by blast
  ultimately have "collect_label plan cc msg label m
      = Inr (AList.update (string_value c) (pool @ [raw]) m)"
    using c by (simp add: collect_label_def)
  moreover have "dom (map_of m) \<subseteq> dom (map_of (AList.update (string_value c) (pool @ [raw]) m))"
    by (auto simp: update_conv')
  ultimately show ?thesis using assms(1) by blast
qed

lemma collect_message_total:
  assumes "string_value ` set (codes (code_scheme cc)) \<subseteq> dom (map_of m)"
    and "well_coded opt_in plan cc msg"
  shows "\<exists>m'. collect_message opt_in plan cc msg m = Inr m'
           \<and> string_value ` set (codes (code_scheme cc)) \<subseteq> dom (map_of m')"
proof (cases "opt_in msg CONSENT_WITHDRAWN_KEY plan")
  case False
  with assms(1) show ?thesis by (simp add: collect_message_def)
next
  case True
  with assms(2) obtain ls where ls: "msg (coded_field cc) = Some (Labels ls)"
    "list_all (\<lambda>label. \<not> isl (get_code_with_code_id (code_scheme cc) label)) ls"
    and raw: "msg (raw_field plan) \<noteq> None"
    by (auto simp: well_coded_def split: option.splits field_value.splits)
  have "(list_ex (\<lambda>x. False) ls \<longrightarrow> foldE (collect_label plan cc msg) ls m = Inl KeyError) \<and>
        (\<not> list_ex (\<lambda>x. False) ls \<longrightarrow>
          (\<exists>m'. foldE (collect_label plan cc msg) ls m = Inr m'
             \<and> string_value ` set (codes (code_scheme cc)) \<subseteq> dom (map_of m')))"
    by (rule foldE_outcome[of "\<lambda>m. string_value ` set (codes (code_scheme cc)) \<subseteq> dom (map_of m)",
          OF assms(1)])
      (use ls(2) raw collect_label_total in \<open>auto simp: list_all_iff\<close>)
  with True ls(1) show ?thesis
    by (simp add: collect_message_def iter_labels_def list_ex_iff)
qed

lemma collect_messages_total:
  assumes "list_all (well_coded opt_in plan cc) messages"
  shows "\<exists>m. collect_messages opt_in plan cc messages = Inr m"
proof -
  let ?P = "\<lambda>m. string_value ` set (codes (code_scheme cc)) \<subseteq> dom (map_of m)"
  have "fst ` set (init_code_to_messages cc) = string_value ` set (codes (code_scheme cc))"
    using init_pools_keys[of "codes (code_scheme cc)" "[]"]
    by (simp add: init_code_to_messages_def)
  then have "?P (init_code_to_messages cc)"
    by (simp add: dom_map_of_conv_image_fst)
  then have "(list_ex (\<lambda>x. False) messages \<longrightarrow>
          foldE (collect_message opt_in plan cc) messages (init_code_to_messages cc) = Inl KeyError) \<and>
        (\<not> list_ex (\<lambda>x. False) messages \<longrightarrow>
          (\<exists>m'. foldE (collect_message opt_in plan cc) messages (init_code_to_messages cc) = Inr m'
             \<and> ?P m'))"
    by (rule foldE_outcome[of ?P])
      (use assms collect_message_total in \<open>auto simp: list_all_iff\<close>)
  then show ?thesis by (auto simp: collect_messages_def list_ex_iff)
qed

lemma assigned_count_responses:
  assumes "list_all (assigned_once cc sv) messages"
  shows "assigned_count opt_in plan cc messages sv = responses_assigned opt_in plan cc messages sv"
  using assms
proof (induction messages)
  case Nil
  then show ?case by (simp add: assigned_count_def responses_assigned_def)
next
  case (Cons msg messages)
  from Cons.prems have "length (filter (label_has_value cc sv) (labels_of cc msg)) \<le> 1"
    by (simp add: assigned_once_def)
  moreover have "list_ex (label_has_value cc sv) (labels_of cc msg)
      \<longleftrightarrow> filter (label_has_value cc sv) (labels_of cc msg) \<noteq> []"
    by (simp add: list_ex_iff filter_empty_conv)
  ultimately have "length (filter (label_has_value cc sv) (labels_of cc msg))
      = (if list_ex (label_has_value cc sv) (labels_of cc msg) then 1 else 0)"
    by (cases "filter (label_has_value cc sv) (labels_of cc msg)") auto
  with Cons show ?case by (simp add: assigned_count_def responses_assigned_def)
qed

text \<open>
  C8, as amended: for an RQA plan and a configuration, sampling never fails on well-coded
  messages, and the rows it adds for a string value are exactly min(100, n), where n is
  the number of label assignments of that value among the opt-in messages; n is the
  number of opt-in messages assigned the value when no message carries it twice.
\<close>

theorem sample_rows_per_code:
  "(list_all (well_coded opt_in plan cc) messages \<longrightarrow>
       \<not> isl (sample_configuration tape opt_in messages (plan, cc) s))
   \<and> (\<forall>s'. sample_configuration tape opt_in messages (plan, cc) s = Inr s' \<longrightarrow>
        (\<exists>new. snd s' = snd s @ new
           \<and> (\<forall>sv. length (filter (\<lambda>row. Sample_Code row = sv) new)
                     = min 100 (assigned_count opt_in plan cc messages sv))
           \<and> (\<forall>row\<in>set new. Sample_Episode row = dataset_name plan
                 \<and> Sample_Code_Scheme row = name (code_scheme cc))))
   \<and> (\<forall>sv. list_all (assigned_once cc sv) messages \<longrightarrow>
        assigned_count opt_in plan cc messages sv = responses_assigned opt_in plan cc messages sv)"
proof -
  have A: "\<not> isl (sample_configuration tape opt_in messages (plan, cc) s)"
    if "list_all (well_coded opt_in plan cc) messages"
  proof -
    from collect_messages_total[OF that] obtain m where
      m: "collect_messages opt_in plan cc messages = Inr m" ..
    from sample_pools_rows[OF collect_messages_pools(1)[OF m], of tape plan cc s] m
    show ?thesis by (auto simp: sample_configuration_def)
  qed
  have B: "\<exists>new. snd s' = snd s @ new
           \<and> (\<forall>sv. length (filter (\<lambda>row. Sample_Code row = sv) new)
                     = min 100 (assigned_count opt_in plan cc messages sv))
           \<and> (\<forall>row\<in>set new. Sample_Episode row = dataset_name plan
                 \<and> Sample_Code_Scheme row = name (code_scheme cc))"
    if "sample_configuration tape opt_in messages (plan, cc) s = Inr s'" for s'
  proof -
    from that obtain m where m: "collect_messages opt_in plan cc messages = Inr m"
      and run: "foldE (sample_code tape plan cc) m s = Inr s'"
      by (auto simp: sample_configuration_def split: sum.splits)
    from sample_pools_rows[OF collect_messages_pools(1)[OF m], of tape plan cc s] run
      collect_messages_pools(2)[OF m]
    show ?thesis by auto
  qed
  from A B assigned_count_responses show ?thesis by blast
qed

text \<open>
  C8 as stated fails: one opt-in message that carries the code "yes" in two labels gives
  two sample rows for "yes", where one raw response is assigned that code.
\<close>

theorem repeated_label_sampled_twice:
  "sample_configuration (\<lambda>i. 0) ex_opt_in [ex_individual Codes_FALSE ''c-yes'' [''c-yes'', ''c-yes'']]
      (ex_episode ''e1'', hd (coding_configurations (ex_episode ''e1''))) (0, [])
     = Inr (2, [\<lparr> Sample_Episode = ''e1'', Sample_Code_Scheme = ''scheme'', Sample_Code = ''yes'',
                    Sample_Message = Str ''text'' \<rparr>,
                 \<lparr> Sample_Episode = ''e1'', Sample_Code_Scheme = ''scheme'', Sample_Code = ''yes'',
                    Sample_Message = Str ''text'' \<rparr>])
   \<and> responses_assigned ex_opt_in (ex_episode ''e1'') (hd (coding_configurations (ex_episode ''e1'')))
        [ex_individual Codes_FALSE ''c-yes'' [''c-yes'', ''c-yes'']] ''yes'' = 1"
  by (simp add: sample_configuration_def collect_messages_def collect_message_def collect_label_def
      init_code_to_messages_def sample_code_def random_sample_def responses_assigned_def
      labels_of_def label_has_value_def iter_labels_def get_code_with_code_id_def
      ex_opt_in_def ex_individual_def ex_episode_def ex_scheme_def ex_codes_def numeral_2_eq_2)

lemma ex_assigned_count:
  "assigned_count ex_opt_in (ex_episode ''e1'') (hd (coding_configurations (ex_episode ''e1'')))
     (replicate n (ex_individual Codes_FALSE ''c-yes'' [''c-yes''])) ''yes'' = n"
  by (simp add: assigned_count_def ex_opt_in_def ex_individual_def ex_episode_def map_replicate_const
      sum_list_replicate labels_of_def iter_labels_def label_has_value_def get_code_with_code_id_def
      ex_scheme_def ex_codes_def)

lemma ex_well_coded:
  "list_all (well_coded ex_opt_in (ex_episode ''e1'') (hd (coding_configurations (ex_episode ''e1''))))
     (replicate n (ex_individual Codes_FALSE ''c-yes'' [''c-yes'']))"
  by (simp add: list_all_iff well_coded_def ex_individual_def ex_episode_def
      get_code_with_code_id_def ex_scheme_def ex_codes_def)

theorem sample_rows_per_code_witness:
  "(\<exists>s'. sample_configuration (\<lambda>i. 0) ex_opt_in
           (replicate 5 (ex_individual Codes_FALSE ''c-yes'' [''c-yes'']))
           (ex_episode ''e1'', hd (coding_configurations (ex_episode ''e1''))) (0, []) = Inr s'
         \<and> length (filter (\<lambda>row. Sample_Code row = ''yes'') (snd s')) = 5)
   \<and> (\<exists>s'. sample_configuration (\<lambda>i. 0) ex_opt_in
           (replicate 150 (ex_individual Codes_FALSE ''c-yes'' [''c-yes'']))
           (ex_episode ''e1'', hd (coding_configurations (ex_episode ''e1''))) (0, []) = Inr s'
         \<and> length (filter (\<lambda>row. Sample_Code row = ''yes'') (snd s')) = 100)"
proof -
  let ?plan = "ex_episode ''e1''"
  let ?cc = "hd (coding_configurations (ex_episode ''e1''))"
  let ?msgs = "\<lambda>n. replicate n (ex_individual Codes_FALSE ''c-yes'' [''c-yes''])"
  have "\<exists>s'. sample_configuration (\<lambda>i. 0) ex_opt_in (?msgs n) (?plan, ?cc) (0, []) = Inr s'
         \<and> length (filter (\<lambda>row. Sample_Code row = ''yes'') (snd s')) = min 100 n" for n
  proof -
    note t = sample_rows_per_code[of ex_opt_in ?plan ?cc "?msgs n" "\<lambda>i. 0" "(0, [])"]
    from t ex_well_coded[of n] obtain s' where
      s': "sample_configuration (\<lambda>i. 0) ex_opt_in (?msgs n) (?plan, ?cc) (0, []) = Inr s'"
      by (cases "sample_configuration (\<lambda>i. 0) ex_opt_in (?msgs n) (?plan, ?cc) (0, [])") auto
    with t obtain new where "snd s' = new"
      "\<forall>sv. length (filter (\<lambda>row. Sample_Code row = sv) new)
                     = min 100 (assigned_count ex_opt_in ?plan ?cc (?msgs n) sv)"
      by auto
    with s' ex_assigned_count[of n] show ?thesis by auto
  qed
  from this[of 5] this[of 150] show ?thesis by simp
qed

end
